theory Spec2Isabelle
  imports Main "HOL-Library.AList" "HOL-Library.Multiset"
begin

section \<open>Data model\<close>

text \<open>
  A JavaScript string is modelled as a \<^typ>\<open>string\<close>; each character stands for one
  code unit below 256. A value that may be \<^verbatim>\<open>undefined\<close> is an \<^typ>\<open>'a option\<close>
  with \<^term>\<open>None\<close> for \<^verbatim>\<open>undefined\<close>.

  A moddle element is an object with the property \<^verbatim>\<open>$type\<close>, the property
  \<^verbatim>\<open>id\<close>, further own properties, and the two child collections
  \<^verbatim>\<open>flowElements\<close> and \<^verbatim>\<open>artifacts\<close>, each of which may be absent.
  The value of an own property is a string, a reference to another element (written as
  the \<^verbatim>\<open>id\<close> of the element referred to), or the diagram shape \<^verbatim>\<open>di\<close>
  with its \<^verbatim>\<open>isExpanded\<close> flag.
\<close>

datatype jsval = Str string | Ref string | Di bool

datatype element =
  Element (el_type: string) (el_id: string) (el_props: "(string \<times> jsval) list")
          (flowElements: "element list option") (artifacts: "element list option")

text \<open>The children of an element are smaller than the element.\<close>

lemma size_flowElements: "flowElements e = Some fes \<Longrightarrow> size_list size fes < size e"
  by (cases e) simp

lemma size_artifacts: "artifacts e = Some arts \<Longrightarrow> size_list size arts < size e"
  by (cases e) simp

lemma size_flowElement:
  "flowElements c = Some fes \<Longrightarrow> fe \<in> set fes \<Longrightarrow> size fe < size c"
  using size_flowElements [of c fes] size_list_estimation' [of fe fes "size fe" size] by simp

lemma size_artifact:
  "artifacts c = Some arts \<Longrightarrow> a \<in> set arts \<Longrightarrow> size a < size c"
  using size_artifacts [of c arts] size_list_estimation' [of a arts "size a" size] by simp

text \<open>Reading a string attribute such as \<^verbatim>\<open>task.algorithm\<close>.\<close>

definition attr :: "element \<Rightarrow> string \<Rightarrow> string option" where
  "attr e k = (case map_of (el_props e) k of Some (Str s) \<Rightarrow> Some s | _ \<Rightarrow> None)"

text \<open>
  The exceptions of the program: a \<^verbatim>\<open>TypeError\<close> raised by a property access on
  \<^verbatim>\<open>undefined\<close>, and an error raised inside the diagram editor.
\<close>

datatype error = TypeError | HostError

section \<open>String primitives\<close>

text \<open>\<^verbatim>\<open>String.prototype.startsWith\<close>.\<close>

definition startsWith :: "string \<Rightarrow> string \<Rightarrow> bool" where
  "startsWith s p = (take (length p) s = p)"

text \<open>
  \<^verbatim>\<open>String.prototype.trim\<close> strips white space and line terminators from both ends;
  below 256 these are the code units 9 to 13, 32 and 160.
\<close>

definition is_space :: "char \<Rightarrow> bool" where
  "is_space c = (c \<in> set [CHR 0x09, CHR 0x0A, CHR 0x0B, CHR 0x0C, CHR 0x0D, CHR 0x20, CHR 0xA0])"

definition trim :: "string \<Rightarrow> string" where
  "trim s = rev (dropWhile is_space (rev (dropWhile is_space s)))"

text \<open>\<^verbatim>\<open>s.split(',')\<close>: the pieces between the commas, empty pieces included.\<close>

fun split_comma :: "string \<Rightarrow> string list" where
  "split_comma [] = [[]]"
| "split_comma (c # cs) =
     (if c = CHR '','' then [] # split_comma cs
      else (case split_comma cs of w # ws \<Rightarrow> (c # w) # ws | [] \<Rightarrow> [[c]]))"

section \<open>QuantMEMatcher\<close>

text \<open>
  The loop of \<^verbatim>\<open>matchesProperty\<close> over \<^verbatim>\<open>valueList\<close>: true at the first
  entry whose trimmed value is the trimmed task value, false when the list is exhausted.
\<close>

fun valueListMatches :: "string list \<Rightarrow> string \<Rightarrow> bool" where
  "valueListMatches [] taskProperty = False"
| "valueListMatches (v # vs) taskProperty =
     (if trim v = trim taskProperty then True else valueListMatches vs taskProperty)"

fun matchesProperty :: "string option \<Rightarrow> string option \<Rightarrow> bool \<Rightarrow> bool" where
  "matchesProperty None taskProperty required = False"
| "matchesProperty (Some d) taskProperty required =
     (if d = ''*'' then True
      else (case taskProperty of
              None \<Rightarrow> \<not> required
            | Some t \<Rightarrow>
                if CHR '','' \<in> set d then valueListMatches (split_comma d) t
                else trim d = trim t))"

text \<open>Reading \<^verbatim>\<open>xs[i]\<close> from an array: \<^verbatim>\<open>undefined\<close> out of range.\<close>

definition at :: "'a option list \<Rightarrow> nat \<Rightarrow> 'a option" where
  "at xs i = (if i < length xs then xs ! i else None)"

text \<open>
  The loop of \<^verbatim>\<open>matchAlternativeProperties\<close> from index \<open>i\<close>, with the current
  values of \<^verbatim>\<open>taskAlternative\<close> and \<^verbatim>\<open>detectorAlternative\<close>.
\<close>

function alternativesLoop ::
  "string option list \<Rightarrow> string option list \<Rightarrow> nat \<Rightarrow> string option \<Rightarrow> string option \<Rightarrow> bool" where
  "alternativesLoop detectorProperties taskProperties i taskAlternative detectorAlternative =
     (if i < length taskProperties then
        (if at taskProperties i \<noteq> None then
           (if taskAlternative \<noteq> None then False
            else alternativesLoop detectorProperties taskProperties (i + 1)
                   (at taskProperties i) (at detectorProperties i))
         else alternativesLoop detectorProperties taskProperties (i + 1)
                taskAlternative detectorAlternative)
      else matchesProperty detectorAlternative taskAlternative True)"
  by pat_completeness auto
termination
  by (relation "measure (\<lambda>(ds, ts, i, ta, da). length ts - i)") auto

definition matchAlternativeProperties :: "string option list \<Rightarrow> string option list \<Rightarrow> bool" where
  "matchAlternativeProperties detectorProperties taskProperties =
     (if length detectorProperties \<noteq> length taskProperties then False
      else alternativesLoop detectorProperties taskProperties 0 None None)"

definition matchQuantumComputationTask :: "element \<Rightarrow> element \<Rightarrow> bool" where
  "matchQuantumComputationTask detectorElement task =
     (matchesProperty (attr detectorElement ''algorithm'') (attr task ''algorithm'') True
      \<and> matchesProperty (attr detectorElement ''provider'') (attr task ''provider'') False)"

definition matchQuantumCircuitLoadingTask :: "element \<Rightarrow> element \<Rightarrow> bool" where
  "matchQuantumCircuitLoadingTask detectorElement task =
     matchAlternativeProperties
       [attr detectorElement ''quantumCircuit'', attr detectorElement ''url'']
       [attr task ''quantumCircuit'', attr task ''url'']"

definition matchDataPreparationTask :: "element \<Rightarrow> element \<Rightarrow> bool" where
  "matchDataPreparationTask detectorElement task =
     (matchesProperty (attr detectorElement ''encodingSchema'') (attr task ''encodingSchema'') True
      \<and> matchesProperty (attr detectorElement ''programmingLanguage'')
            (attr task ''programmingLanguage'') True)"

definition matchOracleExpansionTask :: "element \<Rightarrow> element \<Rightarrow> bool" where
  "matchOracleExpansionTask detectorElement task =
     (matchesProperty (attr detectorElement ''oracleId'') (attr task ''oracleId'') True
      \<and> matchesProperty (attr detectorElement ''programmingLanguage'')
            (attr task ''programmingLanguage'') True
      \<and> matchAlternativeProperties
            [attr detectorElement ''oracleCircuit'', attr detectorElement ''oracleURL'']
            [attr task ''oracleCircuit'', attr task ''oracleURL''])"

definition matchQuantumCircuitExecutionTask :: "element \<Rightarrow> element \<Rightarrow> bool" where
  "matchQuantumCircuitExecutionTask detectorElement task =
     (matchesProperty (attr detectorElement ''provider'') (attr task ''provider'') False
      \<and> matchesProperty (attr detectorElement ''qpu'') (attr task ''qpu'') False
      \<and> matchesProperty (attr detectorElement ''shots'') (attr task ''shots'') False
      \<and> matchesProperty (attr detectorElement ''programmingLanguage'')
            (attr task ''programmingLanguage'') True)"

definition matchReadoutErrorMitigationTask :: "element \<Rightarrow> element \<Rightarrow> bool" where
  "matchReadoutErrorMitigationTask detectorElement task =
     (matchesProperty (attr detectorElement ''unfoldingTechnique'')
            (attr task ''unfoldingTechnique'') True
      \<and> matchesProperty (attr detectorElement ''qpu'') (attr task ''qpu'') True
      \<and> matchesProperty (attr detectorElement ''maxAge'') (attr task ''maxAge'') False)"

definition taskMatchesDetector :: "element \<Rightarrow> element \<Rightarrow> bool" where
  "taskMatchesDetector detectorElement task =
     (if el_type detectorElement \<noteq> el_type task then False
      else if el_type task = ''quantme:QuantumComputationTask''
        then matchQuantumComputationTask detectorElement task
      else if el_type task = ''quantme:QuantumCircuitLoadingTask''
        then matchQuantumCircuitLoadingTask detectorElement task
      else if el_type task = ''quantme:DataPreparationTask''
        then matchDataPreparationTask detectorElement task
      else if el_type task = ''quantme:OracleExpansionTask''
        then matchOracleExpansionTask detectorElement task
      else if el_type task = ''quantme:QuantumCircuitExecutionTask''
        then matchQuantumCircuitExecutionTask detectorElement task
      else if el_type task = ''quantme:ReadoutErrorMitigationTask''
        then matchReadoutErrorMitigationTask detectorElement task
      else False)"

section \<open>Utilities\<close>

text \<open>
  A parsed diagram is its list of root elements. \<^verbatim>\<open>getRootProcess\<close> returns the
  first root element of type \<^verbatim>\<open>bpmn:Process\<close>, or \<^verbatim>\<open>undefined\<close>.
\<close>

type_synonym definitions = "element list"

fun getRootProcess :: "definitions \<Rightarrow> element option" where
  "getRootProcess [] = None"
| "getRootProcess (r # rs) = (if el_type r = ''bpmn:Process'' then Some r else getRootProcess rs)"

definition isQuantMETask :: "element \<Rightarrow> bool" where
  "isQuantMETask task = startsWith (el_type task) ''quantme:''"

text \<open>
  \<^verbatim>\<open>getSingleFlowElement\<close> reads \<^verbatim>\<open>process.flowElements.length\<close>: a
  \<^verbatim>\<open>TypeError\<close> when the process or its \<^verbatim>\<open>flowElements\<close> is
  \<^verbatim>\<open>undefined\<close>.
\<close>

definition getSingleFlowElement :: "element option \<Rightarrow> error + element option" where
  "getSingleFlowElement process =
     (case process of
        None \<Rightarrow> Inl TypeError
      | Some p \<Rightarrow>
          (case flowElements p of
             None \<Rightarrow> Inl TypeError
           | Some fes \<Rightarrow> if length fes \<noteq> 1 then Inr None else Inr (Some (fes ! 0))))"

definition isFlowLikeElement :: "string \<Rightarrow> bool" where
  "isFlowLikeElement ty = (ty = ''bpmn:SequenceFlow'' \<or> ty = ''bpmn:Association'')"

text \<open>
  The loop \<^verbatim>\<open>for (let key in element)\<close> of \<^verbatim>\<open>getPropertiesToCopy\<close> visits the
  enumerable properties only. On an element that the parser built, a property that refers
  to another element (\<^verbatim>\<open>sourceRef\<close>, \<^verbatim>\<open>targetRef\<close>, \<^verbatim>\<open>attachedToRef\<close>) and
  the property \<^verbatim>\<open>di\<close> are not enumerable; the properties with a string value are.
\<close>

fun enumerable :: "jsval \<Rightarrow> bool" where
  "enumerable (Str s) = True"
| "enumerable (Ref r) = False"
| "enumerable (Di b) = False"

text \<open>
  \<^verbatim>\<open>getPropertiesToCopy\<close> keeps the properties visited by its loop whose key does
  not start with \<^verbatim>\<open>$\<close> and is none of \<^verbatim>\<open>id\<close>, \<^verbatim>\<open>flowElements\<close>,
  \<^verbatim>\<open>artifacts\<close>.
\<close>

definition getPropertiesToCopy :: "element \<Rightarrow> (string \<times> jsval) list" where
  "getPropertiesToCopy e =
     filter (\<lambda>(key, v). enumerable v \<and> \<not> startsWith key ''$'' \<and> key \<noteq> ''id''
                        \<and> key \<noteq> ''flowElements'' \<and> key \<noteq> ''artifacts'') (el_props e)"

section \<open>Templates\<close>

text \<open>
  A QRM holds its detector and its replacement fragment as serialized diagrams. The parser
  is outside the program; a serialized diagram is represented by the definitions it parses
  to, and a replacement that is missing (falsy) by \<^term>\<open>None\<close>.

  \<^verbatim>\<open>matchesQRM\<close> is the method of \<^verbatim>\<open>replacement/QuantMEMatcher.js\<close>; the
  transformator of \<^verbatim>\<open>quantme/replacement\<close> imports the function of this name from a
  module beside it that is not among the sources.
\<close>

record qrm =
  qrm_url :: string
  qrm_detector :: definitions
  qrm_replacement :: "definitions option"

definition matchesQRM :: "qrm \<Rightarrow> element \<Rightarrow> error + bool" where
  "matchesQRM q task =
     (case getSingleFlowElement (getRootProcess (qrm_detector q)) of
        Inl e \<Rightarrow> Inl e
      | Inr None \<Rightarrow> Inr False
      | Inr (Some detectorElement) \<Rightarrow>
          if \<not> isQuantMETask detectorElement then Inr False
          else Inr (taskMatchesDetector detectorElement task))"

fun getMatchingQRM :: "qrm list \<Rightarrow> element \<Rightarrow> error + qrm option" where
  "getMatchingQRM [] task = Inr None"
| "getMatchingQRM (q # qs) task =
     (case matchesQRM q task of
        Inl e \<Rightarrow> Inl e
      | Inr True \<Rightarrow> Inr (Some q)
      | Inr False \<Rightarrow> getMatchingQRM qs task)"

section \<open>The diagram editor\<close>

text \<open>
  The editor (\<^verbatim>\<open>elementRegistry\<close>, \<^verbatim>\<open>modeling\<close>, \<^verbatim>\<open>bpmnReplace\<close>) is a
  collaborator of the program. It is modelled by the list of registered diagram elements.
  A reference to a diagram element is the id under which it is registered, so that an
  update through one reference is seen through every other.

  A registered element has its id and type, the element it lies in, for a connection the
  two elements it connects (\<^verbatim>\<open>source\<close> and \<^verbatim>\<open>target\<close>), for a boundary event
  its \<^verbatim>\<open>host\<close>, the expanded flag of its shape, the properties set on its business
  object by \<^verbatim>\<open>updateProperties\<close>, and its input parameters.
\<close>

record shape =
  sh_id :: string
  sh_type :: string
  sh_parent :: "string option"
  sh_source :: "string option"
  sh_target :: "string option"
  sh_host :: "string option"
  sh_expanded :: bool
  sh_props :: "(string \<times> jsval) list"
  sh_inputs :: "(string \<times> jsval) list"

type_synonym diagram = "shape list"

definition ids :: "diagram \<Rightarrow> string list" where
  "ids d = map sh_id d"

text \<open>
  The editor gives a new element an id that no registered element has; the model takes
  a string longer than every registered id.
\<close>

definition fresh_id :: "diagram \<Rightarrow> string" where
  "fresh_id d = replicate (Suc (foldr max (map length (ids d)) 0)) CHR ''n''"

text \<open>\<^verbatim>\<open>elementRegistry.get(id)\<close>: \<^verbatim>\<open>undefined\<close> for an id that is not registered.\<close>

definition registry_get :: "diagram \<Rightarrow> string option \<Rightarrow> string option" where
  "registry_get d i = (case i of None \<Rightarrow> None | Some k \<Rightarrow> if k \<in> set (ids d) then Some k else None)"

definition new_shape :: "string \<Rightarrow> string \<Rightarrow> string option \<Rightarrow> shape" where
  "new_shape i ty p =
     \<lparr>sh_id = i, sh_type = ty, sh_parent = p, sh_source = None, sh_target = None,
      sh_host = None, sh_expanded = False, sh_props = [], sh_inputs = []\<rparr>"

text \<open>\<^verbatim>\<open>modeling.createShape({ type }, position, parent, {})\<close>; it fails without a parent.\<close>

definition createShape :: "string \<Rightarrow> string option \<Rightarrow> diagram \<Rightarrow> (error + string) \<times> diagram" where
  "createShape ty parent d =
     (case parent of
        None \<Rightarrow> (Inl HostError, d)
      | Some p \<Rightarrow> (Inr (fresh_id d), d @ [new_shape (fresh_id d) ty (Some p)]))"

text \<open>
  \<^verbatim>\<open>bpmnReplace.replaceElement(old, { type })\<close>: the old element gives way to an
  element of the given type that keeps the id of the old one and its place in the
  diagram, so that whatever was connected or attached to the old element is connected or
  attached to the new one. It fails without an old element.
\<close>

definition replaceElement :: "string option \<Rightarrow> string \<Rightarrow> diagram \<Rightarrow> (error + string) \<times> diagram" where
  "replaceElement old ty d =
     (case old of
        None \<Rightarrow> (Inl HostError, d)
      | Some k \<Rightarrow> (Inr k, map (\<lambda>s. if sh_id s = k then s\<lparr>sh_type := ty\<rparr> else s) d))"

definition parent_of :: "diagram \<Rightarrow> string \<Rightarrow> string option" where
  "parent_of d i = (case find (\<lambda>s. sh_id s = i) d of None \<Rightarrow> None | Some s \<Rightarrow> sh_parent s)"

text \<open>
  \<^verbatim>\<open>modeling.connect(source, target, { type })\<close> creates a connection in the parent of
  the source; it fails when an end is \<^verbatim>\<open>undefined\<close>.
\<close>

definition connect ::
  "string option \<Rightarrow> string option \<Rightarrow> string \<Rightarrow> diagram \<Rightarrow> (error + string) \<times> diagram" where
  "connect source target ty d =
     (case (source, target) of
        (Some s, Some t) \<Rightarrow>
          (Inr (fresh_id d),
           d @ [(new_shape (fresh_id d) ty (parent_of d s))\<lparr>sh_source := Some s, sh_target := Some t\<rparr>])
      | _ \<Rightarrow> (Inl HostError, d))"

text \<open>\<^verbatim>\<open>modeling.updateProperties(element, properties)\<close> sets each given property.\<close>

definition updateProperties :: "string \<Rightarrow> (string \<times> jsval) list \<Rightarrow> diagram \<Rightarrow> diagram" where
  "updateProperties element properties d =
     map (\<lambda>s. if sh_id s = element
               then s\<lparr>sh_props := foldl (\<lambda>ps (k, v). AList.update k v ps) (sh_props s) properties\<rparr>
               else s) d"

definition setExpanded :: "string \<Rightarrow> diagram \<Rightarrow> diagram" where
  "setExpanded element d = map (\<lambda>s. if sh_id s = element then s\<lparr>sh_expanded := True\<rparr> else s) d"

definition setHost :: "string \<Rightarrow> string \<Rightarrow> diagram \<Rightarrow> diagram" where
  "setHost element h d = map (\<lambda>s. if sh_id s = element then s\<lparr>sh_host := Some h\<rparr> else s) d"

section \<open>QuantMETransformator: discovery\<close>

record replacementTask =
  rt_task :: element
  rt_parent :: "string option"
  rt_qrm :: "qrm option"

text \<open>
  \<^verbatim>\<open>getQuantMETasks\<close> with its loop over \<^verbatim>\<open>flowElements\<close>; reading
  \<^verbatim>\<open>flowElements.length\<close> of a process without \<^verbatim>\<open>flowElements\<close> is a
  \<^verbatim>\<open>TypeError\<close>.
\<close>

function (sequential) getQuantMETasks :: "diagram \<Rightarrow> element \<Rightarrow> error + replacementTask list"
  and quantMETasksLoop ::
    "diagram \<Rightarrow> string option \<Rightarrow> element list \<Rightarrow> replacementTask list \<Rightarrow> error + replacementTask list"
where
  "getQuantMETasks d process =
     (case flowElements process of
        None \<Rightarrow> Inl TypeError
      | Some fes \<Rightarrow> quantMETasksLoop d (registry_get d (Some (el_id process))) fes [])"
| "quantMETasksLoop d processBo [] quantmeTasks = Inr quantmeTasks"
| "quantMETasksLoop d processBo (flowElement # rest) quantmeTasks =
     (let quantmeTasks1 =
            (if el_type flowElement \<noteq> [] \<and> startsWith (el_type flowElement) ''quantme:''
             then quantmeTasks @ [\<lparr>rt_task = flowElement, rt_parent = processBo, rt_qrm = None\<rparr>]
             else quantmeTasks)
      in if el_type flowElement \<noteq> [] \<and> el_type flowElement = ''bpmn:SubProcess''
         then (case getQuantMETasks d flowElement of
                 Inl e \<Rightarrow> Inl e
               | Inr nested \<Rightarrow> quantMETasksLoop d processBo rest (quantmeTasks1 @ nested))
         else quantMETasksLoop d processBo rest quantmeTasks1)"
  by pat_completeness auto
termination
  by (relation "measure (case_sum (\<lambda>(d, process). 2 * size process)
                                  (\<lambda>(d, processBo, fes, acc). 2 * size_list size fes + 1))")
     (auto dest: size_flowElements)

section \<open>QuantMETransformator: inserting a replacement fragment\<close>

type_synonym idmap = "string \<rightharpoonup> string"

record insert_result =
  r_success :: bool
  r_idMap :: idmap
  r_element :: string

text \<open>
  \<^verbatim>\<open>newElement.sourceRef.id\<close> and the like: a \<^verbatim>\<open>TypeError\<close> when the property
  is \<^verbatim>\<open>undefined\<close>, the id of the element referred to when it is a reference, and
  \<^verbatim>\<open>undefined\<close> when it is another value.
\<close>

definition refId :: "element \<Rightarrow> string \<Rightarrow> error + string option" where
  "refId e k =
     (case map_of (el_props e) k of
        None \<Rightarrow> Inl TypeError
      | Some (Ref r) \<Rightarrow> Inr (Some r)
      | Some _ \<Rightarrow> Inr None)"

text \<open>\<^verbatim>\<open>idMap[key]\<close>: the key \<^verbatim>\<open>undefined\<close> is the property name "undefined".\<close>

definition idMapAt :: "idmap \<Rightarrow> string option \<Rightarrow> string option" where
  "idMapAt m key = m (case key of None \<Rightarrow> ''undefined'' | Some k \<Rightarrow> k)"

text \<open>
  The first step of \<^verbatim>\<open>insertShape\<close>: the new diagram element is a replacement of
  the old element, a new shape under the parent, or, for a flow like element, a
  connection between the elements that the id map gives for its two ends.
\<close>

definition createElement ::
  "string option \<Rightarrow> element \<Rightarrow> idmap \<Rightarrow> bool \<Rightarrow> element option \<Rightarrow> diagram
     \<Rightarrow> (error + string) \<times> diagram" where
  "createElement parent newElement idMap replace oldElement d =
     (if \<not> isFlowLikeElement (el_type newElement) then
        (if replace then
           (case oldElement of
              None \<Rightarrow> (Inl TypeError, d)
            | Some old \<Rightarrow>
                replaceElement (registry_get d (Some (el_id old))) (el_type newElement) d)
         else createShape (el_type newElement) parent d)
      else
        (case refId newElement ''sourceRef'' of
           Inl e \<Rightarrow> (Inl e, d)
         | Inr s \<Rightarrow>
             (case refId newElement ''targetRef'' of
                Inl e \<Rightarrow> (Inl e, d)
              | Inr t \<Rightarrow>
                  connect (registry_get d (idMapAt idMap s)) (registry_get d (idMapAt idMap t))
                    (el_type newElement) d)))"

text \<open>\<^verbatim>\<open>shape && shape.isExpanded\<close> for \<^verbatim>\<open>shape = newElement.di\<close>.\<close>

definition isExpanded :: "element \<Rightarrow> bool" where
  "isExpanded e = (case map_of (el_props e) ''di'' of Some (Di b) \<Rightarrow> b | _ \<Rightarrow> False)"

text \<open>
  The steps of \<^verbatim>\<open>insertShape\<close> between the entry in the id map and the children:
  expanding a subprocess, attaching a boundary event to its host, copying the properties.
  Reading \<^verbatim>\<open>hostElement.businessObject\<close> of a host that is not registered is a
  \<^verbatim>\<open>TypeError\<close>.
\<close>

definition configureElement ::
  "string \<Rightarrow> element \<Rightarrow> idmap \<Rightarrow> diagram \<Rightarrow> (error + unit) \<times> diagram" where
  "configureElement element newElement idMap d =
     (let d1 = (if el_type newElement = ''bpmn:SubProcess'' \<and> isExpanded newElement
                then setExpanded element d else d)
      in if el_type newElement = ''bpmn:BoundaryEvent'' then
           (case refId newElement ''attachedToRef'' of
              Inl e \<Rightarrow> (Inl e, d1)
            | Inr a \<Rightarrow>
                (case registry_get d1 (idMapAt idMap a) of
                   None \<Rightarrow> (Inl TypeError, d1)
                 | Some hostElement \<Rightarrow>
                     (Inr (),
                      updateProperties element (getPropertiesToCopy newElement)
                        (setHost element hostElement
                           (updateProperties element [(''attachedToRef'', Ref hostElement)] d1)))))
         else (Inr (), updateProperties element (getPropertiesToCopy newElement) d1))"

text \<open>
  \<^verbatim>\<open>insertShape\<close> and \<^verbatim>\<open>insertChildElements\<close>. The first loop of
  \<^verbatim>\<open>insertChildElements\<close> is \<open>insertFlowElements\<close>, which carries the lists
  \<^verbatim>\<open>boundaryEvents\<close> and \<^verbatim>\<open>sequenceflows\<close> and runs the two later loops
  when the flow elements are exhausted. The two later loops and the loop over the
  artifacts in \<^verbatim>\<open>insertShape\<close> have the same body and are \<open>insertElements\<close>.
  An exception ends the whole call; the diagram is returned as it is at that moment.
\<close>

function (sequential)
  insertShape ::
    "string option \<Rightarrow> element \<Rightarrow> idmap \<Rightarrow> bool \<Rightarrow> element option \<Rightarrow> diagram
       \<Rightarrow> (error + insert_result) \<times> diagram"
  and insertChildElements ::
    "string \<Rightarrow> element \<Rightarrow> idmap \<Rightarrow> diagram \<Rightarrow> (error + insert_result) \<times> diagram"
  and insertFlowElements ::
    "string \<Rightarrow> element list \<Rightarrow> element list \<Rightarrow> element list \<Rightarrow> bool \<Rightarrow> idmap \<Rightarrow> diagram
       \<Rightarrow> (error + bool \<times> idmap) \<times> diagram"
  and insertElements ::
    "string \<Rightarrow> element list \<Rightarrow> bool \<Rightarrow> idmap \<Rightarrow> diagram \<Rightarrow> (error + bool \<times> idmap) \<times> diagram"
where
  "insertShape parent newElement idMap replace oldElement d =
     (case createElement parent newElement idMap replace oldElement d of
        (Inl e, d1) \<Rightarrow> (Inl e, d1)
      | (Inr element, d1) \<Rightarrow>
          (case configureElement element newElement (idMap(el_id newElement \<mapsto> element)) d1 of
             (Inl e, d2) \<Rightarrow> (Inl e, d2)
           | (Inr u, d2) \<Rightarrow>
               (case insertChildElements element newElement
                       (idMap(el_id newElement \<mapsto> element)) d2 of
                  (Inl e, d3) \<Rightarrow> (Inl e, d3)
                | (Inr resultTuple, d3) \<Rightarrow>
                    (case artifacts newElement of
                       None \<Rightarrow>
                         (Inr \<lparr>r_success = r_success resultTuple,
                               r_idMap = r_idMap resultTuple, r_element = element\<rparr>, d3)
                     | Some arts \<Rightarrow>
                         (case insertElements element arts (r_success resultTuple)
                                 (r_idMap resultTuple) d3 of
                            (Inl e, d4) \<Rightarrow> (Inl e, d4)
                          | (Inr (s, m), d4) \<Rightarrow>
                              (Inr \<lparr>r_success = s, r_idMap = m, r_element = element\<rparr>, d4))))))"
| "insertChildElements parent newElement idMap d =
     (case flowElements newElement of
        None \<Rightarrow> (Inr \<lparr>r_success = True, r_idMap = idMap, r_element = parent\<rparr>, d)
      | Some fes \<Rightarrow>
          (case insertFlowElements parent fes [] [] True idMap d of
             (Inl e, d1) \<Rightarrow> (Inl e, d1)
           | (Inr (s, m), d1) \<Rightarrow> (Inr \<lparr>r_success = s, r_idMap = m, r_element = parent\<rparr>, d1)))"
| "insertFlowElements parent [] boundaryEvents sequenceflows success idMap d =
     (case insertElements parent boundaryEvents success idMap d of
        (Inl e, d1) \<Rightarrow> (Inl e, d1)
      | (Inr (s, m), d1) \<Rightarrow> insertElements parent sequenceflows s m d1)"
| "insertFlowElements parent (fe # fes) boundaryEvents sequenceflows success idMap d =
     (if el_type fe = ''bpmn:SequenceFlow''
        then insertFlowElements parent fes boundaryEvents (sequenceflows @ [fe]) success idMap d
      else if el_type fe = ''bpmn:BoundaryEvent''
        then insertFlowElements parent fes (boundaryEvents @ [fe]) sequenceflows success idMap d
      else
        (case insertShape (Some parent) fe idMap False None d of
           (Inl e, d1) \<Rightarrow> (Inl e, d1)
         | (Inr result, d1) \<Rightarrow>
             insertFlowElements parent fes boundaryEvents sequenceflows
               (success \<and> r_success result) (r_idMap result) d1))"
| "insertElements parent [] success idMap d = (Inr (success, idMap), d)"
| "insertElements parent (x # xs) success idMap d =
     (case insertShape (Some parent) x idMap False None d of
        (Inl e, d1) \<Rightarrow> (Inl e, d1)
      | (Inr result, d1) \<Rightarrow>
          insertElements parent xs (success \<and> r_success result)
            (r_idMap result) d1)"
  by pat_completeness auto
termination
  by (relation "inv_image (less_than <*lex*> less_than)
       (\<lambda>x. case x of
          Inl (Inl (parent, newElement, rest)) \<Rightarrow> (3 * size newElement + 2, 0)
        | Inl (Inr (parent, newElement, rest)) \<Rightarrow> (3 * size newElement + 1, 0)
        | Inr (Inl (parent, fes, boundaryEvents, sequenceflows, rest)) \<Rightarrow>
            (3 * (size_list size fes + size_list size boundaryEvents
                  + size_list size sequenceflows) + 1, size_list size fes)
        | Inr (Inr (parent, xs, rest)) \<Rightarrow> (3 * size_list size xs, 0))")
     (auto dest: size_flowElements size_artifacts)

declare insertShape.simps [simp del] insertChildElements.simps [simp del]

section \<open>QuantMETransformator: the replacement process\<close>

text \<open>
  Modelled from the spec: \<^verbatim>\<open>addQuantMEInputParameters\<close> of the module
  \<^verbatim>\<open>InputOutputHandler\<close>, which is not among the sources. It transfers the
  attributes of the replaced task into the input parameters of the element that replaced
  it (\<^verbatim>\<open>getCamundaInputOutput\<close> yields that parameter set, created when missing).
\<close>

definition addQuantMEInputParameters :: "element \<Rightarrow> string \<Rightarrow> diagram \<Rightarrow> diagram" where
  "addQuantMEInputParameters task element d =
     map (\<lambda>s. if sh_id s = element then s\<lparr>sh_inputs := sh_inputs s @ el_props task\<rparr> else s) d"

definition replaceByFragment ::
  "element \<Rightarrow> string option \<Rightarrow> definitions option \<Rightarrow> diagram \<Rightarrow> (error + bool) \<times> diagram" where
  "replaceByFragment task parent replacement d =
     (case replacement of
        None \<Rightarrow> (Inr False, d)
      | Some xml \<Rightarrow>
          (case getSingleFlowElement (getRootProcess xml) of
             Inl e \<Rightarrow> (Inl e, d)
           | Inr None \<Rightarrow> (Inr False, d)
           | Inr (Some replacementElement) \<Rightarrow>
               (case insertShape parent replacementElement Map.empty True (Some task) d of
                  (Inl e, d1) \<Rightarrow> (Inl e, d1)
                | (Inr result, d1) \<Rightarrow>
                    (Inr (r_success result),
                     addQuantMEInputParameters task (r_element result) d1))))"







section \<open>isReplaceable\<close>

text \<open>
  \<^verbatim>\<open>requiredAttributesAvailable\<close> belongs to the module
  \<^verbatim>\<open>QuantMEAttributeChecker\<close>, which is not among the sources; it is a parameter.
  \<open>isReplaceable\<close> is the function of \<^verbatim>\<open>quantme/replacement/QuantMETransformator.js\<close>
  with its loop over the QRMs, \<open>replacement_isReplaceable\<close> the function of
  \<^verbatim>\<open>replacement/QuantMETransformator.js\<close>.
\<close>

fun isReplaceableLoop :: "qrm list \<Rightarrow> element \<Rightarrow> error + bool" where
  "isReplaceableLoop [] element = Inr True"
| "isReplaceableLoop (q # qs) element =
     (case matchesQRM q element of
        Inl e \<Rightarrow> Inl e
      | Inr True \<Rightarrow> Inr True
      | Inr False \<Rightarrow> isReplaceableLoop qs element)"

definition isReplaceable :: "(element \<Rightarrow> bool) \<Rightarrow> qrm list \<Rightarrow> element \<Rightarrow> error + bool" where
  "isReplaceable requiredAttributesAvailable QRMs element =
     (if \<not> requiredAttributesAvailable element then Inr False
      else isReplaceableLoop QRMs element)"

definition replacement_isReplaceable :: "(element \<Rightarrow> bool) \<Rightarrow> element \<Rightarrow> bool" where
  "replacement_isReplaceable requiredAttributesAvailable element =
     (if \<not> requiredAttributesAvailable element then False else True)"

section \<open>Notions used in the statements\<close>

text \<open>
  The detector of a QRM parses to a diagram with a root process that has a list of flow
  elements, so that \<^verbatim>\<open>matchesQRM\<close> raises no exception on it.
\<close>

definition detectorParses :: "qrm \<Rightarrow> bool" where
  "detectorParses q =
     (case getRootProcess (qrm_detector q) of None \<Rightarrow> False | Some p \<Rightarrow> flowElements p \<noteq> None)"


text \<open>
  The example of the specification: a task with \<open>algorithm = x\<close>, a first template whose
  detector lists \<open>x,y\<close> and a second whose detector has \<open>z\<close>.
\<close>

definition exTask :: element where
  "exTask = Element ''quantme:QuantumComputationTask'' ''T'' [(''algorithm'', Str ''x'')] None None"

definition exDetector :: "string \<Rightarrow> definitions" where
  "exDetector v =
     [Element ''bpmn:Process'' ''P'' []
        (Some [Element ''quantme:QuantumComputationTask'' ''D''
                 [(''algorithm'', Str v), (''provider'', Str ''*'')] None None]) None]"

definition Tpl1 :: qrm where
  "Tpl1 = \<lparr>qrm_url = ''tpl1'', qrm_detector = exDetector ''x,y'', qrm_replacement = None\<rparr>"

definition Tpl2 :: qrm where
  "Tpl2 = \<lparr>qrm_url = ''tpl2'', qrm_detector = exDetector ''z'', qrm_replacement = None\<rparr>"


text \<open>
  Discovery as the specification words it: a walk through the process and through every
  nested container, in pre-order, that collects each QuantME element together with the
  registered element of the container that directly holds it. A container is an element
  that holds flow elements, whatever its type.
\<close>

function spec_discover :: "diagram \<Rightarrow> element \<Rightarrow> replacementTask list" where
  "spec_discover d container =
     (case flowElements container of
        None \<Rightarrow> []
      | Some fes \<Rightarrow>
          concat (map (\<lambda>fe.
            (if startsWith (el_type fe) ''quantme:''
             then [\<lparr>rt_task = fe, rt_parent = registry_get d (Some (el_id container)),
                    rt_qrm = None\<rparr>]
             else [])
            @ spec_discover d fe) fes))"
  by pat_completeness auto
termination
  by (relation "measure (\<lambda>(d, c). size c)")
     (auto dest: size_flowElement)

declare spec_discover.simps [simp del]

text \<open>
  The walk of \<^verbatim>\<open>getQuantMETasks\<close> enters a flow element when its type is
  \<^verbatim>\<open>bpmn:SubProcess\<close> and enters no other element. \<open>subProcessesOf\<close> lists the
  process and the subprocesses that this walk enters; \<open>subProcesses_ok\<close> says that each
  of them has a list of flow elements; \<open>walkSubProcesses\<close> is the walk in pre-order that
  enters these subprocesses only; \<open>holds d c x\<close> says that the entry \<open>x\<close> is a QuantME
  element directly in the container \<open>c\<close>, paired with the registered element of \<open>c\<close>.
  \<open>onlySubProcesses\<close> says that, below an element, every element that holds flow
  elements has the type \<^verbatim>\<open>bpmn:SubProcess\<close>.
\<close>

function subProcesses_ok :: "element \<Rightarrow> bool" where
  "subProcesses_ok c =
     (case flowElements c of
        None \<Rightarrow> False
      | Some fes \<Rightarrow> (\<forall>fe\<in>set fes. el_type fe = ''bpmn:SubProcess'' \<longrightarrow> subProcesses_ok fe))"
  by pat_completeness auto
termination
  by (relation "measure size")
     (auto dest: size_flowElement)

function walkSubProcesses :: "diagram \<Rightarrow> element \<Rightarrow> replacementTask list" where
  "walkSubProcesses d container =
     (case flowElements container of
        None \<Rightarrow> []
      | Some fes \<Rightarrow>
          concat (map (\<lambda>fe.
            (if startsWith (el_type fe) ''quantme:''
             then [\<lparr>rt_task = fe, rt_parent = registry_get d (Some (el_id container)),
                    rt_qrm = None\<rparr>]
             else [])
            @ (if el_type fe = ''bpmn:SubProcess'' then walkSubProcesses d fe else [])) fes))"
  by pat_completeness auto
termination
  by (relation "measure (\<lambda>(d, c). size c)")
     (auto dest: size_flowElement)

declare subProcesses_ok.simps [simp del] walkSubProcesses.simps [simp del]

function subProcessesOf :: "element \<Rightarrow> element list" where
  "subProcessesOf c =
     c # (case flowElements c of
            None \<Rightarrow> []
          | Some fes \<Rightarrow>
              concat (map (\<lambda>fe. if el_type fe = ''bpmn:SubProcess'' then subProcessesOf fe else []) fes))"
  by pat_completeness auto
termination
  by (relation "measure size") (auto dest: size_flowElement)

declare subProcessesOf.simps [simp del]

function onlySubProcesses :: "element \<Rightarrow> bool" where
  "onlySubProcesses c =
     (case flowElements c of
        None \<Rightarrow> True
      | Some fes \<Rightarrow>
          (\<forall>fe\<in>set fes. (flowElements fe \<noteq> None \<longrightarrow> el_type fe = ''bpmn:SubProcess'')
                         \<and> onlySubProcesses fe))"
  by pat_completeness auto
termination
  by (relation "measure size") (auto dest: size_flowElement)

declare onlySubProcesses.simps [simp del]

definition holds :: "diagram \<Rightarrow> element \<Rightarrow> replacementTask \<Rightarrow> bool" where
  "holds d c x =
     (case flowElements c of
        None \<Rightarrow> False
      | Some fes \<Rightarrow>
          rt_task x \<in> set fes \<and> startsWith (el_type (rt_task x)) ''quantme:''
          \<and> rt_parent x = registry_get d (Some (el_id c)) \<and> rt_qrm x = None)"


text \<open>A QuantME task two subprocesses deep, and a diagram in which all four are registered.\<close>

definition exNested :: element where
  "exNested =
     Element ''bpmn:Process'' ''P'' []
       (Some [Element ''bpmn:SubProcess'' ''S1'' []
                (Some [Element ''bpmn:SubProcess'' ''S2'' []
                         (Some [Element ''quantme:QuantumComputationTask'' ''T'' [] None None])
                         None])
                None])
       None"

definition exNestedDiagram :: diagram where
  "exNestedDiagram =
     [new_shape ''P'' ''bpmn:Process'' None,
      new_shape ''S1'' ''bpmn:SubProcess'' (Some ''P''),
      new_shape ''S2'' ''bpmn:SubProcess'' (Some ''S1''),
      new_shape ''T'' ''quantme:QuantumComputationTask'' (Some ''S2'')]"


text \<open>
  A QuantME task in a transaction, which is a container of another type than
  \<^verbatim>\<open>bpmn:SubProcess\<close>, with a diagram in which the three elements are registered;
  and a process with a subprocess that holds no flow element, for which the parser leaves
  \<^verbatim>\<open>flowElements\<close> undefined.
\<close>

definition exTransaction :: element where
  "exTransaction =
     Element ''bpmn:Process'' ''P'' []
       (Some [Element ''bpmn:Transaction'' ''X'' []
                (Some [Element ''quantme:QuantumComputationTask'' ''T'' [] None None])
                None])
       None"

definition exTransactionDiagram :: diagram where
  "exTransactionDiagram =
     [new_shape ''P'' ''bpmn:Process'' None,
      new_shape ''X'' ''bpmn:Transaction'' (Some ''P''),
      new_shape ''T'' ''quantme:QuantumComputationTask'' (Some ''X'')]"

definition exEmptySubProcess :: element where
  "exEmptySubProcess =
     Element ''bpmn:Process'' ''P'' []
       (Some [Element ''bpmn:SubProcess'' ''S'' [] None None])
       None"



definition exDiagram :: diagram where
  "exDiagram =
     [new_shape ''P'' ''bpmn:Process'' None,
      new_shape ''T'' ''quantme:QuantumComputationTask'' (Some ''P''),
      new_shape ''U'' ''quantme:QuantumComputationTask'' (Some ''P'')]"

text \<open>
  The ids of an element and of all elements below it; the ends of the registered
  elements; and the effect of an insertion on the id map and on the diagram: the
  registered elements keep their ends, the id map is unchanged outside the set \<open>X\<close> of
  ids, and every id in \<open>X\<close> is mapped to the id of an element registered by the insertion.
\<close>

function all_ids :: "element \<Rightarrow> string list" where
  "all_ids e =
     el_id e
     # (case flowElements e of None \<Rightarrow> [] | Some fes \<Rightarrow> concat (map all_ids fes))
     @ (case artifacts e of None \<Rightarrow> [] | Some arts \<Rightarrow> concat (map all_ids arts))"
  by pat_completeness auto
termination
  by (relation "measure size") (auto dest: size_flowElement size_artifact)

declare all_ids.simps [simp del]

definition ids_of :: "element list \<Rightarrow> string set" where
  "ids_of xs = set (concat (map all_ids xs))"

definition wiring :: "diagram \<Rightarrow> (string \<times> string \<times> string option \<times> string option) set" where
  "wiring d = (\<lambda>s. (sh_id s, sh_type s, sh_source s, sh_target s)) ` set d"

definition eff :: "string set \<Rightarrow> idmap \<Rightarrow> diagram \<Rightarrow> idmap \<Rightarrow> diagram \<Rightarrow> bool" where
  "eff X m d m' d' \<longleftrightarrow>
     wiring d \<subseteq> wiring d'
     \<and> (\<forall>k. k \<notin> X \<longrightarrow> m' k = m k)
     \<and> (\<forall>k\<in>X. \<exists>i. m' k = Some i \<and> i \<in> set (ids d') \<and> i \<notin> set (ids d))"


text \<open>
  The three buckets of \<^verbatim>\<open>insertChildElements\<close> and the order in which it inserts the
  flow elements.
\<close>

definition plainOf :: "element list \<Rightarrow> element list" where
  "plainOf fes =
     filter (\<lambda>fe. el_type fe \<noteq> ''bpmn:SequenceFlow'' \<and> el_type fe \<noteq> ''bpmn:BoundaryEvent'') fes"

definition boundaryOf :: "element list \<Rightarrow> element list" where
  "boundaryOf fes = filter (\<lambda>fe. el_type fe = ''bpmn:BoundaryEvent'') fes"

definition edgesOf :: "element list \<Rightarrow> element list" where
  "edgesOf fes = filter (\<lambda>fe. el_type fe = ''bpmn:SequenceFlow'') fes"

definition insertionOrder :: "element list \<Rightarrow> element list" where
  "insertionOrder fes = plainOf fes @ boundaryOf fes @ edgesOf fes"

text \<open>
  Flow elements without children and artifacts of their own, none of them a boundary event
  or an association, whose sequence flows refer at both ends to plain flow elements of
  the same list.
\<close>

definition leafChildren :: "element list \<Rightarrow> bool" where
  "leafChildren fes =
     (\<forall>x\<in>set fes.
        flowElements x = None \<and> artifacts x = None
        \<and> el_type x \<noteq> ''bpmn:BoundaryEvent'' \<and> el_type x \<noteq> ''bpmn:Association''
        \<and> (el_type x = ''bpmn:SequenceFlow'' \<longrightarrow>
             (\<exists>p\<in>set (plainOf fes). map_of (el_props x) ''sourceRef'' = Some (Ref (el_id p)))
             \<and> (\<exists>q\<in>set (plainOf fes). map_of (el_props x) ''targetRef'' = Some (Ref (el_id q)))))"











text \<open>
  Fragments for the examples: a subprocess with a sequence flow listed before the two
  tasks that it connects; and a subprocess in which the first sequence flow has an end
  that is no element of the fragment, and the second connects the task \<open>a\<close> with itself.
  \<open>exReplaced\<close> is a diagram in which a subprocess with the id \<open>nn\<close> lies in the
  process beside the task \<open>U\<close>. \<open>exSpliced\<close> is the example diagram once
  \<open>exFragment\<close> has replaced the task \<open>T\<close>: the subprocess has the id of the task, and
  its two tasks and the sequence flow have new ids. \<open>exHalfSpliced\<close> is the example
  diagram with the task \<open>T\<close> turned into a subprocess that holds the task \<open>a\<close> of
  \<open>exBroken\<close> and no sequence flow.
\<close>

definition exFlow :: element where
  "exFlow = Element ''bpmn:SequenceFlow'' ''f''
              [(''sourceRef'', Ref ''a''), (''targetRef'', Ref ''b'')] None None"

definition exA :: element where
  "exA = Element ''bpmn:Task'' ''a'' [(''name'', Str ''A'')] None None"

definition exB :: element where
  "exB = Element ''bpmn:Task'' ''b'' [] None None"

definition exFragment :: element where
  "exFragment = Element ''bpmn:SubProcess'' ''s'' [(''di'', Di True)] (Some [exFlow, exA, exB]) None"

definition exDangling :: element where
  "exDangling = Element ''bpmn:SequenceFlow'' ''f''
                  [(''sourceRef'', Ref ''a''), (''targetRef'', Ref ''zz'')] None None"

definition exLoop :: element where
  "exLoop = Element ''bpmn:SequenceFlow'' ''g''
              [(''sourceRef'', Ref ''a''), (''targetRef'', Ref ''a'')] None None"

definition exBroken :: element where
  "exBroken = Element ''bpmn:SubProcess'' ''s'' [] (Some [exDangling, exLoop, exA]) None"

definition exReplaced :: diagram where
  "exReplaced =
     [new_shape ''P'' ''bpmn:Process'' None,
      new_shape ''nn'' ''bpmn:SubProcess'' (Some ''P''),
      new_shape ''U'' ''quantme:QuantumComputationTask'' (Some ''P'')]"


definition exSpliced :: diagram where
  "exSpliced =
     [(new_shape ''P'' ''bpmn:Process'' None),
      (new_shape ''T'' ''bpmn:SubProcess'' (Some ''P''))\<lparr>sh_expanded := True\<rparr>,
      (new_shape ''U'' ''quantme:QuantumComputationTask'' (Some ''P'')),
      (new_shape ''nn'' ''bpmn:Task'' (Some ''T''))\<lparr>sh_props := [(''name'', Str ''A'')]\<rparr>,
      (new_shape ''nnn'' ''bpmn:Task'' (Some ''T'')),
      (new_shape ''nnnn'' ''bpmn:SequenceFlow'' (Some ''T''))
         \<lparr>sh_source := Some ''nn'', sh_target := Some ''nnn''\<rparr>]"

definition exHalfSpliced :: diagram where
  "exHalfSpliced =
     [new_shape ''P'' ''bpmn:Process'' None,
      new_shape ''T'' ''bpmn:SubProcess'' (Some ''P''),
      new_shape ''U'' ''quantme:QuantumComputationTask'' (Some ''P''),
      (new_shape ''nn'' ''bpmn:Task'' (Some ''T''))\<lparr>sh_props := [(''name'', Str ''A'')]\<rparr>]"


section \<open>Properties of the matcher\<close>

lemma valueListMatches_iff:
  "valueListMatches vs t = (\<exists>e\<in>set vs. trim e = trim t)"
  by (induction vs) auto

lemma alternativesLoop_rest_undefined:
  "(\<forall>j. i \<le> j \<and> j < length ts \<longrightarrow> ts ! j = None) \<Longrightarrow>
   alternativesLoop ds ts i tA dA = matchesProperty dA tA True"
proof (induction ds ts i tA dA rule: alternativesLoop.induct)
  case (1 ds ts i tA dA)
  show ?case
  proof (cases "i < length ts")
    case True
    with "1.prems" have here: "at ts i = None" by (simp add: at_def)
    have "alternativesLoop ds ts (i + 1) tA dA = matchesProperty dA tA True"
      using "1.IH"(2) True here "1.prems" by simp
    with True here show ?thesis by (subst alternativesLoop.simps) simp
  next
    case False
    then show ?thesis by (subst alternativesLoop.simps) simp
  qed
qed

lemma alternativesLoop_too_many:
  "(if tA = None then 2 else 1) \<le> length (filter (\<lambda>t. t \<noteq> None) (drop i ts)) \<Longrightarrow>
   alternativesLoop ds ts i tA dA = False"
proof (induction ds ts i tA dA rule: alternativesLoop.induct)
  case (1 ds ts i tA dA)
  have inb: "i < length ts"
  proof (rule ccontr)
    assume "\<not> i < length ts"
    then have "drop i ts = []" by simp
    with "1.prems" show False by (simp split: if_splits)
  qed
  then have dr: "drop i ts = ts ! i # drop (i + 1) ts"
    by (simp add: Cons_nth_drop_Suc)
  show ?case
  proof (cases "at ts i = None")
    case True
    then have "ts ! i = None" using inb by (simp add: at_def)
    with "1.prems" dr
    have "(if tA = None then 2 else 1) \<le> length (filter (\<lambda>t. t \<noteq> None) (drop (i + 1) ts))"
      by simp
    with "1.IH"(2) inb True have "alternativesLoop ds ts (i + 1) tA dA = False" by simp
    with inb True show ?thesis by (subst alternativesLoop.simps) simp
  next
    case False
    then have def: "ts ! i \<noteq> None" using inb by (simp add: at_def)
    show ?thesis
    proof (cases "tA = None")
      case True
      with "1.prems" dr def
      have "1 \<le> length (filter (\<lambda>t. t \<noteq> None) (drop (i + 1) ts))" by simp
      moreover have "at ts i \<noteq> None" by (rule False)
      ultimately have "alternativesLoop ds ts (i + 1) (at ts i) (at ds i) = False"
        using "1.IH"(1) inb False True by simp
      with inb False True show ?thesis by (subst alternativesLoop.simps) simp
    next
      case nn: False
      with inb False show ?thesis by (subst alternativesLoop.simps) simp
    qed
  qed
qed

lemma alternativesLoop_unique:
  "i \<le> k \<Longrightarrow> k < length ts \<Longrightarrow> ts ! k \<noteq> None \<Longrightarrow>
   (\<forall>j < length ts. j \<noteq> k \<longrightarrow> ts ! j = None) \<Longrightarrow>
   alternativesLoop ds ts i None dA = matchesProperty (at ds k) (ts ! k) True"
proof (induction "k - i" arbitrary: i dA)
  case 0
  then have ik: "i = k" by simp
  have "alternativesLoop ds ts (k + 1) (at ts k) (at ds k) = matchesProperty (at ds k) (at ts k) True"
    using "0.prems" by (intro alternativesLoop_rest_undefined) auto
  with "0.prems" ik show ?case
    by (subst alternativesLoop.simps) (simp add: at_def)
next
  case (Suc n)
  then have lt: "i < k" by simp
  with Suc.prems have "ts ! i = None" by simp
  moreover have "alternativesLoop ds ts (i + 1) None dA = matchesProperty (at ds k) (ts ! k) True"
    using Suc.hyps(1)[of "i + 1" dA] Suc.hyps(2) Suc.prems lt by simp
  ultimately show ?case using lt Suc.prems
    by (subst alternativesLoop.simps) (simp add: at_def)
qed

lemma filter_defined_zero:
  "length (filter (\<lambda>t. t \<noteq> None) ts) = 0 \<Longrightarrow> j < length ts \<Longrightarrow> ts ! j = None"
  by (metis (mono_tags, lifting) length_0_conv nth_mem filter_empty_conv)

text \<open>
  Claim C4. \<^verbatim>\<open>matchAlternativeProperties\<close> is false when the two sequences differ in
  length; it is false when the number of defined task values is not one, whatever the
  detector values are; and when exactly one task value is defined, it is
  \<^verbatim>\<open>matchesProperty\<close> of the detector value and the task value at that position
  with \<open>required = true\<close>.
\<close>

theorem matchAlternativeProperties_exactly_one:
  "(length ds \<noteq> length ts \<longrightarrow> \<not> matchAlternativeProperties ds ts)
   \<and> (length (filter (\<lambda>t. t \<noteq> None) ts) \<noteq> 1 \<longrightarrow> \<not> matchAlternativeProperties ds ts)
   \<and> (length ds = length ts \<and> k < length ts \<and> ts ! k \<noteq> None
        \<and> (\<forall>j < length ts. j \<noteq> k \<longrightarrow> ts ! j = None)
      \<longrightarrow> matchAlternativeProperties ds ts = matchesProperty (ds ! k) (ts ! k) True)"
proof (intro conjI impI)
  assume "length ds \<noteq> length ts"
  then show "\<not> matchAlternativeProperties ds ts"
    by (simp add: matchAlternativeProperties_def)
next
  assume n1: "length (filter (\<lambda>t. t \<noteq> None) ts) \<noteq> 1"
  show "\<not> matchAlternativeProperties ds ts"
  proof (cases "length (filter (\<lambda>t. t \<noteq> None) ts) = 0")
    case True
    then have "\<forall>j. 0 \<le> j \<and> j < length ts \<longrightarrow> ts ! j = None"
      using filter_defined_zero by blast
    then have "alternativesLoop ds ts 0 None None = matchesProperty None None True"
      by (rule alternativesLoop_rest_undefined)
    then show ?thesis by (simp add: matchAlternativeProperties_def)
  next
    case False
    with n1 have "2 \<le> length (filter (\<lambda>t. t \<noteq> None) ts)" by arith
    then have "2 \<le> length (filter (\<lambda>t. t \<noteq> None) (drop 0 ts))" by simp
    then have "alternativesLoop ds ts 0 None None = False"
      by (intro alternativesLoop_too_many) simp
    then show ?thesis by (simp add: matchAlternativeProperties_def)
  qed
next
  assume a: "length ds = length ts \<and> k < length ts \<and> ts ! k \<noteq> None
        \<and> (\<forall>j < length ts. j \<noteq> k \<longrightarrow> ts ! j = None)"
  then have "alternativesLoop ds ts 0 None None = matchesProperty (at ds k) (ts ! k) True"
    by (intro alternativesLoop_unique) auto
  with a show "matchAlternativeProperties ds ts = matchesProperty (ds ! k) (ts ! k) True"
    by (simp add: matchAlternativeProperties_def at_def)
qed

lemma trim_a: "trim ''a'' = ''a''" by (simp add: trim_def is_space_def)
lemma trim_star: "trim '' * '' = ''*''" by (simp add: trim_def is_space_def)

theorem matchAlternativeProperties_exactly_one_witness:
  "matchAlternativeProperties [Some ''a'', Some ''b,c''] [None, Some '' c'']
     = matchesProperty (Some ''b,c'') (Some '' c'') True
   \<and> matchAlternativeProperties [Some ''a'', Some ''b,c''] [None, Some '' c'']
   \<and> \<not> matchAlternativeProperties [Some ''*''] [None, Some ''c'']
   \<and> \<not> matchAlternativeProperties [Some ''*'', Some ''*''] [Some ''a'', Some ''c'']
   \<and> \<not> matchAlternativeProperties [Some ''*'', Some ''*''] [None, None]"
  using matchAlternativeProperties_exactly_one [of "[Some ''a'', Some ''b,c'']" "[None, Some '' c'']" 1]
    matchAlternativeProperties_exactly_one [of "[Some ''*'']" "[None, Some ''c'']" 0]
    matchAlternativeProperties_exactly_one [of "[Some ''*'', Some ''*'']" "[Some ''a'', Some ''c'']" 0]
    matchAlternativeProperties_exactly_one [of "[Some ''*'', Some ''*'']" "[None, None]" 0]
  by (simp add: less_Suc_eq trim_def is_space_def)

text \<open>
  Claim C5. With the wildcard \<^verbatim>\<open>*\<close> as detector value, \<^verbatim>\<open>matchesProperty\<close> is
  true for every task value, the undefined one included, and for both values of the
  required flag.
\<close>

theorem matchesProperty_wildcard:
  "matchesProperty (Some ''*'') taskProperty required = True"
  by simp

lemma matchesQRM_parses:
  "detectorParses q \<Longrightarrow> \<exists>b. matchesQRM q task = Inr b"
  by (auto simp: detectorParses_def matchesQRM_def getSingleFlowElement_def
           split: option.splits)

lemma getMatchingQRM_parsing:
  "\<forall>q\<in>set qrms. detectorParses q \<Longrightarrow>
   getMatchingQRM qrms task = Inr (find (\<lambda>q. matchesQRM q task = Inr True) qrms)"
proof (induction qrms)
  case Nil
  show ?case by simp
next
  case (Cons q qs)
  then obtain b where b: "matchesQRM q task = Inr b"
    using matchesQRM_parses by fastforce
  show ?case
  proof (cases b)
    case True
    with b show ?thesis by simp
  next
    case False
    with b Cons show ?thesis by simp
  qed
qed

lemma getMatchingQRM_returned:
  "getMatchingQRM qrms task = Inr r \<Longrightarrow> r = find (\<lambda>q. matchesQRM q task = Inr True) qrms"
  by (induction qrms) (auto split: sum.splits bool.splits)

text \<open>
  Claim C6. For templates whose detectors parse, \<^verbatim>\<open>getMatchingQRM\<close> returns the
  first template of the collection, in its order, whose detector matches the task, and
  \<^verbatim>\<open>undefined\<close> when none matches; and whatever the templates are, a value that it
  returns is that first template, or \<^verbatim>\<open>undefined\<close> when none matches.
\<close>

theorem getMatchingQRM_first_match:
  "((\<forall>q\<in>set qrms. detectorParses q) \<longrightarrow>
      getMatchingQRM qrms task = Inr (find (\<lambda>q. matchesQRM q task = Inr True) qrms))
   \<and> (getMatchingQRM qrms task = Inr r \<longrightarrow> r = find (\<lambda>q. matchesQRM q task = Inr True) qrms)"
  using getMatchingQRM_parsing getMatchingQRM_returned by blast

lemma Tpl1_matches: "matchesQRM Tpl1 exTask = Inr True"
  by (simp add: matchesQRM_def Tpl1_def exDetector_def exTask_def getSingleFlowElement_def
      isQuantMETask_def startsWith_def taskMatchesDetector_def matchQuantumComputationTask_def
      attr_def trim_def is_space_def)

lemma Tpl2_matches: "matchesQRM Tpl2 exTask = Inr False"
  by (simp add: matchesQRM_def Tpl2_def exDetector_def exTask_def getSingleFlowElement_def
      isQuantMETask_def startsWith_def taskMatchesDetector_def matchQuantumComputationTask_def
      attr_def trim_def is_space_def)

theorem getMatchingQRM_first_match_witness:
  "getMatchingQRM [Tpl1, Tpl2] exTask = Inr (Some Tpl1)
   \<and> getMatchingQRM [Tpl2, Tpl1] exTask = Inr (Some Tpl1)
   \<and> getMatchingQRM [Tpl2, Tpl2] exTask = Inr None"
proof -
  have p1: "detectorParses Tpl1" by (simp add: detectorParses_def Tpl1_def exDetector_def)
  have p2: "detectorParses Tpl2" by (simp add: detectorParses_def Tpl2_def exDetector_def)
  show ?thesis
    using getMatchingQRM_first_match [of "[Tpl1, Tpl2]" exTask]
      getMatchingQRM_first_match [of "[Tpl2, Tpl1]" exTask]
      getMatchingQRM_first_match [of "[Tpl2, Tpl2]" exTask]
      p1 p2
    by (simp add: Tpl1_matches Tpl2_matches)
qed

text \<open>
  Claim C10 as stated fails: the detector value \<open>a,*\<close> matches the task value \<open>a\<close>,
  which does not trim to \<open>*\<close>, and the detector value of an asterisk between blanks
  matches an undefined task value of an attribute that is not required.
\<close>

theorem wildcard_only_exact_counterexample:
  "matchesProperty (Some ''a,*'') (Some ''a'') True \<and> trim ''a'' \<noteq> ''*''
   \<and> matchesProperty (Some '' * '') None False"
  by (simp add: trim_def is_space_def)

lemma matchesProperty_everything:
  "(\<forall>t r. matchesProperty (Some d) t r) = (d = ''*'')"
proof
  assume "\<forall>t r. matchesProperty (Some d) t r"
  then have "matchesProperty (Some d) None True" by blast
  then show "d = ''*''" by (simp split: if_splits)
next
  assume "d = ''*''"
  then show "\<forall>t r. matchesProperty (Some d) t r" by simp
qed

text \<open>
  Claim C10, amended. A detector value matches every task value exactly when it is the
  one character string \<^verbatim>\<open>*\<close>. A detector value with a comma matches a defined task
  value exactly when an entry of the list and the task value are equal after trimming, so
  \<open>a,*\<close> matches the values that trim to \<open>a\<close> or to \<open>*\<close>; an asterisk between blanks
  matches the defined values that trim to \<open>*\<close>; and a detector value other than the
  wildcard matches an undefined task value exactly when the attribute is not required.
\<close>

theorem wildcard_only_exact:
  "((\<forall>t r. matchesProperty (Some d) t r) = (d = ''*''))
   \<and> (CHR '','' \<in> set d \<longrightarrow>
        matchesProperty (Some d) (Some t) required = (\<exists>e\<in>set (split_comma d). trim e = trim t))
   \<and> matchesProperty (Some ''a,*'') (Some t) required = (trim t = ''a'' \<or> trim t = ''*'')
   \<and> matchesProperty (Some '' * '') (Some t) required = (trim t = ''*'')
   \<and> (d \<noteq> ''*'' \<longrightarrow> matchesProperty (Some d) None required = (\<not> required))"
proof (intro conjI impI)
  show "(\<forall>t r. matchesProperty (Some d) t r) = (d = ''*'')"
    by (rule matchesProperty_everything)
next
  assume c: "CHR '','' \<in> set d"
  then have "d \<noteq> ''*''" by auto
  with c show "matchesProperty (Some d) (Some t) required
      = (\<exists>e\<in>set (split_comma d). trim e = trim t)"
    by (simp add: valueListMatches_iff)
next
  show "matchesProperty (Some ''a,*'') (Some t) required = (trim t = ''a'' \<or> trim t = ''*'')"
    by (auto simp: trim_def is_space_def)
next
  show "matchesProperty (Some '' * '') (Some t) required = (trim t = ''*'')"
    by (auto simp: trim_star)
next
  assume "d \<noteq> ''*''"
  then show "matchesProperty (Some d) None required = (\<not> required)" by simp
qed

theorem wildcard_only_exact_witness:
  "\<not> matchesProperty (Some ''a,*'') (Some ''b'') False
   \<and> matchesProperty (Some ''a,*'') (Some '' * '') True
   \<and> \<not> matchesProperty (Some '' * '') (Some ''b'') False
   \<and> \<not> matchesProperty (Some '' * '') None True
   \<and> \<not> matchesProperty (Some ''x, *'') (Some ''b'') True"
  using wildcard_only_exact [of "''a,*''" "''b''" False]
    wildcard_only_exact [of "''a,*''" "'' * ''" True]
    wildcard_only_exact [of "'' * ''" "''b''" False]
    wildcard_only_exact [of "'' * ''" "''b''" True]
    wildcard_only_exact [of "''x, *''" "''b''" True]
  by (simp add: trim_def is_space_def)

section \<open>Properties of discovery and of the replacement process\<close>

lemma walkSubProcesses_member:
  "x \<in> set (walkSubProcesses d root) \<longleftrightarrow> (\<exists>c\<in>set (subProcessesOf root). holds d c x)"
proof (induction d root rule: walkSubProcesses.induct)
  case (1 d c)
  show ?case
  proof (cases "flowElements c")
    case None
    then show ?thesis
      by (subst walkSubProcesses.simps, subst subProcessesOf.simps) (simp add: holds_def)
  next
    case (Some fes)
    have IH: "\<And>fe. fe \<in> set fes \<Longrightarrow> el_type fe = ''bpmn:SubProcess'' \<Longrightarrow>
        x \<in> set (walkSubProcesses d fe) \<longleftrightarrow> (\<exists>c\<in>set (subProcessesOf fe). holds d c x)"
      using "1.IH" [OF Some] by blast
    have own: "holds d c x \<longleftrightarrow>
        (\<exists>fe\<in>set fes. startsWith (el_type fe) ''quantme:'' \<and>
           x = \<lparr>rt_task = fe, rt_parent = registry_get d (Some (el_id c)), rt_qrm = None\<rparr>)"
      using Some by (cases x) (auto simp: holds_def)
    have "x \<in> set (walkSubProcesses d c) \<longleftrightarrow>
        (\<exists>fe\<in>set fes. (startsWith (el_type fe) ''quantme:'' \<and>
           x = \<lparr>rt_task = fe, rt_parent = registry_get d (Some (el_id c)), rt_qrm = None\<rparr>)
          \<or> (el_type fe = ''bpmn:SubProcess'' \<and> x \<in> set (walkSubProcesses d fe)))"
      using Some by (subst walkSubProcesses.simps) auto
    also have "\<dots> \<longleftrightarrow> holds d c x \<or>
        (\<exists>fe\<in>set fes. el_type fe = ''bpmn:SubProcess'' \<and> (\<exists>c'\<in>set (subProcessesOf fe). holds d c' x))"
      using IH own by blast
    also have "\<dots> \<longleftrightarrow> (\<exists>c'\<in>set (subProcessesOf c). holds d c' x)"
      using Some by (subst (2) subProcessesOf.simps) auto
    finally show ?thesis .
  qed
qed

lemma quantMETasksLoop_walk:
  "(\<forall>fe\<in>set fes. el_type fe = ''bpmn:SubProcess'' \<longrightarrow> getQuantMETasks d fe = Inr (walkSubProcesses d fe)) \<Longrightarrow>
   quantMETasksLoop d bo fes acc =
     Inr (acc @ concat (map (\<lambda>fe.
            (if startsWith (el_type fe) ''quantme:''
             then [\<lparr>rt_task = fe, rt_parent = bo, rt_qrm = None\<rparr>] else [])
            @ (if el_type fe = ''bpmn:SubProcess'' then walkSubProcesses d fe else [])) fes))"
proof (induction fes arbitrary: acc)
  case Nil
  show ?case by simp
next
  case (Cons fe fes)
  have q: "startsWith [] ''quantme:'' = False" by (simp add: startsWith_def)
  show ?case
  proof (cases "el_type fe = ''bpmn:SubProcess''")
    case True
    then have nq: "\<not> startsWith (el_type fe) ''quantme:''" by (simp add: startsWith_def)
    from Cons.prems True have "getQuantMETasks d fe = Inr (walkSubProcesses d fe)" by simp
    with True nq Cons show ?thesis by (simp del: getQuantMETasks.simps)
  next
    case False
    with Cons show ?thesis
      by (cases "el_type fe = []") (auto simp: q Let_def simp del: getQuantMETasks.simps)
  qed
qed

lemma getQuantMETasks_walk:
  "subProcesses_ok root \<Longrightarrow> getQuantMETasks d root = Inr (walkSubProcesses d root)"
proof (induction root rule: subProcesses_ok.induct)
  case (1 c)
  from "1.prems" obtain fes where fes: "flowElements c = Some fes"
    by (subst (asm) subProcesses_ok.simps) (auto split: option.splits)
  have "\<forall>fe\<in>set fes. el_type fe = ''bpmn:SubProcess'' \<longrightarrow> getQuantMETasks d fe = Inr (walkSubProcesses d fe)"
    using "1.IH" [OF fes] "1.prems" fes by (subst (asm) subProcesses_ok.simps) simp
  then show ?case
    using fes by (subst walkSubProcesses.simps) (simp add: quantMETasksLoop_walk del: quantMETasksLoop.simps)
qed

text \<open>
  Where every container is a subprocess, the walk of the program is the walk of the
  specification.
\<close>

lemma walkSubProcesses_spec:
  "onlySubProcesses root \<Longrightarrow> walkSubProcesses d root = spec_discover d root"
proof (induction d root rule: spec_discover.induct)
  case (1 d c)
  show ?case
  proof (cases "flowElements c")
    case None
    then show ?thesis
      by (subst walkSubProcesses.simps, subst spec_discover.simps) simp
  next
    case (Some fes)
    have each: "(if el_type fe = ''bpmn:SubProcess'' then walkSubProcesses d fe else [])
                  = spec_discover d fe" if fe: "fe \<in> set fes" for fe
    proof -
      from "1.prems" Some fe have sub: "flowElements fe \<noteq> None \<longrightarrow> el_type fe = ''bpmn:SubProcess''"
        and only: "onlySubProcesses fe"
        by (subst (asm) onlySubProcesses.simps, simp)+
      show ?thesis
      proof (cases "el_type fe = ''bpmn:SubProcess''")
        case True
        with "1.IH" [OF Some fe only] show ?thesis by simp
      next
        case False
        with sub have "flowElements fe = None" by blast
        then have "spec_discover d fe = []" by (subst spec_discover.simps) simp
        with False show ?thesis by simp
      qed
    qed
    show ?thesis
      using Some each
      by (subst walkSubProcesses.simps, subst spec_discover.simps) (simp cong: map_cong)
  qed
qed

text \<open>
  The walk stops with a \<^verbatim>\<open>TypeError\<close> at a process or subprocess without flow
  elements: the length of its \<^verbatim>\<open>flowElements\<close> cannot be read.
\<close>

lemma getQuantMETasks_empty_subprocess:
  "getQuantMETasks d exEmptySubProcess = Inl TypeError"
  by (simp add: exEmptySubProcess_def startsWith_def)

text \<open>
  Claim C8 as stated fails: the QuantME task in a transaction is a node of the process
  graph in a nested container, and the walk of the specification pairs it with the
  transaction, but \<^verbatim>\<open>getQuantMETasks\<close> returns no task, since it enters an
  element only when its type is \<^verbatim>\<open>bpmn:SubProcess\<close>.
\<close>

theorem getQuantMETasks_subprocesses_only_counterexample:
  "getQuantMETasks exTransactionDiagram exTransaction = Inr []
   \<and> spec_discover exTransactionDiagram exTransaction =
       [\<lparr>rt_task = Element ''quantme:QuantumComputationTask'' ''T'' [] None None,
         rt_parent = Some ''X'', rt_qrm = None\<rparr>]"
  by (simp add: spec_discover.simps exTransaction_def exTransactionDiagram_def startsWith_def
      registry_get_def ids_def new_shape_def)

text \<open>
  Claim C8, amended. On a process in which the process and every subprocess entered has
  a list of flow elements, \<^verbatim>\<open>getQuantMETasks\<close> returns the walk in pre-order
  through the nested elements of type \<^verbatim>\<open>bpmn:SubProcess\<close>: its entries are the
  QuantME elements held by the process and by the subprocesses entered, each paired with
  the registered element of the container that directly holds it. Where every nested
  container is of type \<^verbatim>\<open>bpmn:SubProcess\<close>, this is the walk of the specification
  through all nested containers.
\<close>

theorem getQuantMETasks_subprocesses_preorder:
  "subProcesses_ok root \<Longrightarrow>
   getQuantMETasks d root = Inr (walkSubProcesses d root)
   \<and> (\<forall>x. x \<in> set (walkSubProcesses d root) \<longleftrightarrow> (\<exists>c\<in>set (subProcessesOf root). holds d c x))
   \<and> (onlySubProcesses root \<longrightarrow> getQuantMETasks d root = Inr (spec_discover d root))"
  using getQuantMETasks_walk walkSubProcesses_member walkSubProcesses_spec by simp

theorem getQuantMETasks_subprocesses_preorder_witness:
  "getQuantMETasks exNestedDiagram exNested =
     Inr [\<lparr>rt_task = Element ''quantme:QuantumComputationTask'' ''T'' [] None None,
           rt_parent = Some ''S2'', rt_qrm = None\<rparr>]
   \<and> spec_discover exNestedDiagram exNested =
       [\<lparr>rt_task = Element ''quantme:QuantumComputationTask'' ''T'' [] None None,
         rt_parent = Some ''S2'', rt_qrm = None\<rparr>]"
proof -
  have ok: "subProcesses_ok exNested" by (simp add: exNested_def subProcesses_ok.simps)
  have only: "onlySubProcesses exNested" by (simp add: exNested_def onlySubProcesses.simps)
  have spec: "spec_discover exNestedDiagram exNested =
     [\<lparr>rt_task = Element ''quantme:QuantumComputationTask'' ''T'' [] None None,
           rt_parent = Some ''S2'', rt_qrm = None\<rparr>]"
    by (simp add: spec_discover.simps exNested_def exNestedDiagram_def startsWith_def registry_get_def
        ids_def new_shape_def)
  from getQuantMETasks_subprocesses_preorder [OF ok, of exNestedDiagram] only
  have "getQuantMETasks exNestedDiagram exNested = Inr (spec_discover exNestedDiagram exNested)"
    by blast
  with spec show ?thesis by simp
qed








lemma isReplaceableLoop_no_match:
  "getMatchingQRM QRMs element = Inr None \<Longrightarrow> isReplaceableLoop QRMs element = Inr True"
  by (induction QRMs) (auto split: sum.splits bool.splits)

lemma isReplaceableLoop_not_False: "isReplaceableLoop QRMs element \<noteq> Inr False"
  by (induction QRMs) (auto split: sum.splits bool.splits)

text \<open>
  Claim C9. For an element whose required attributes are available, both versions of
  \<^verbatim>\<open>isReplaceable\<close> yield true when no template matches: the older one always, the
  newer one never returns false and returns true when the search through the templates
  ends without a match.
\<close>

theorem isReplaceable_true_without_match:
  "requiredAttributesAvailable element \<Longrightarrow>
   replacement_isReplaceable requiredAttributesAvailable element
   \<and> isReplaceable requiredAttributesAvailable QRMs element \<noteq> Inr False
   \<and> (getMatchingQRM QRMs element = Inr None
        \<longrightarrow> isReplaceable requiredAttributesAvailable QRMs element = Inr True)"
  by (simp add: replacement_isReplaceable_def isReplaceable_def isReplaceableLoop_no_match
      isReplaceableLoop_not_False)

theorem isReplaceable_true_without_match_witness:
  "getMatchingQRM [Tpl2] exTask = Inr None
   \<and> isReplaceable (\<lambda>e. True) [Tpl2] exTask = Inr True
   \<and> isReplaceable (\<lambda>e. True) [] exTask = Inr True
   \<and> replacement_isReplaceable (\<lambda>e. True) exTask"
  using isReplaceable_true_without_match [of "\<lambda>e. True" exTask "[Tpl2]"]
    isReplaceable_true_without_match [of "\<lambda>e. True" exTask "[]"]
  by (simp add: Tpl2_matches)

section \<open>Properties of the insertion\<close>

lemma ids_wiring: "set (ids d) = fst ` wiring d"
  by (force simp: ids_def wiring_def)

lemma wiring_ids_mono: "wiring d \<subseteq> wiring d' \<Longrightarrow> set (ids d) \<subseteq> set (ids d')"
  by (auto simp: ids_wiring)

lemma eff_refl: "eff {} m d m d"
  by (simp add: eff_def)

lemma eff_trans:
  assumes "eff X m d m1 d1" "eff Y m1 d1 m2 d2"
  shows "eff (X \<union> Y) m d m2 d2"
proof -
  have i1: "set (ids d) \<subseteq> set (ids d1)" and i2: "set (ids d1) \<subseteq> set (ids d2)"
    using assms by (auto simp: eff_def dest: wiring_ids_mono)
  show ?thesis
    unfolding eff_def
  proof (intro conjI allI impI ballI)
    show "wiring d \<subseteq> wiring d2" using assms by (auto simp: eff_def)
  next
    fix k assume "k \<notin> X \<union> Y"
    then show "m2 k = m k" using assms by (simp add: eff_def)
  next
    fix k assume k: "k \<in> X \<union> Y"
    show "\<exists>i. m2 k = Some i \<and> i \<in> set (ids d2) \<and> i \<notin> set (ids d)"
    proof (cases "k \<in> Y")
      case True
      then obtain i where "m2 k = Some i" "i \<in> set (ids d2)" "i \<notin> set (ids d1)"
        using assms(2) by (auto simp: eff_def)
      with i1 show ?thesis by auto
    next
      case False
      with k have kx: "k \<in> X" by simp
      then obtain i where "m1 k = Some i" "i \<in> set (ids d1)" "i \<notin> set (ids d)"
        using assms(1) by (auto simp: eff_def)
      moreover have "m2 k = m1 k" using assms(2) False by (simp add: eff_def)
      ultimately show ?thesis using i2 by auto
    qed
  qed
qed

lemma length_le_foldr_max: "x \<in> set xs \<Longrightarrow> length x \<le> foldr max (map length xs) 0"
  by (induction xs) auto

lemma fresh_id_new: "fresh_id d \<notin> set (ids d)"
proof
  assume "fresh_id d \<in> set (ids d)"
  then have "length (fresh_id d) \<le> foldr max (map length (ids d)) 0"
    by (rule length_le_foldr_max)
  then show False by (simp add: fresh_id_def)
qed

lemma wiring_append: "wiring (d @ [s]) = insert (sh_id s, sh_type s, sh_source s, sh_target s) (wiring d)"
  by (auto simp: wiring_def)

lemma wiring_updateProperties [simp]: "wiring (updateProperties el ps d) = wiring d"
  by (induction d) (simp_all add: wiring_def updateProperties_def)

lemma wiring_setExpanded [simp]: "wiring (setExpanded el d) = wiring d"
  by (induction d) (simp_all add: wiring_def setExpanded_def)

lemma wiring_setHost [simp]: "wiring (setHost el h d) = wiring d"
  by (induction d) (simp_all add: wiring_def setHost_def)

lemma ids_updateProperties [simp]: "ids (updateProperties el ps d) = ids d"
  by (simp add: ids_def updateProperties_def comp_def if_distrib cong: if_cong)

lemma ids_setExpanded [simp]: "ids (setExpanded el d) = ids d"
  by (simp add: ids_def setExpanded_def comp_def if_distrib cong: if_cong)

lemma ids_setHost [simp]: "ids (setHost el h d) = ids d"
  by (simp add: ids_def setHost_def comp_def if_distrib cong: if_cong)

lemma configureElement_wiring:
  "configureElement el x m d = (r, d') \<Longrightarrow> wiring d' = wiring d \<and> ids d' = ids d"
  by (auto simp: configureElement_def Let_def split: if_splits sum.splits option.splits)

text \<open>What createElement does when it creates a new element rather than replacing one.\<close>

lemma createElement_new:
  assumes "createElement parent x m False old d = (Inr el, d1)"
  shows "el = fresh_id d \<and> (\<exists>s. d1 = d @ [s] \<and> sh_id s = el \<and> sh_type s = el_type x
      \<and> (isFlowLikeElement (el_type x) \<longrightarrow>
            (\<exists>a b. refId x ''sourceRef'' = Inr a \<and> refId x ''targetRef'' = Inr b
               \<and> registry_get d (idMapAt m a) \<noteq> None \<and> registry_get d (idMapAt m b) \<noteq> None
               \<and> sh_source s = registry_get d (idMapAt m a)
               \<and> sh_target s = registry_get d (idMapAt m b))))"
  using assms
  by (auto simp: createElement_def createShape_def connect_def new_shape_def
           split: if_splits sum.splits option.splits)

lemma ids_of_Nil [simp]: "ids_of [] = {}"
  by (simp add: ids_of_def)

lemma ids_of_Cons [simp]: "ids_of (x # xs) = set (all_ids x) \<union> ids_of xs"
  by (simp add: ids_of_def)

lemma ids_of_append [simp]: "ids_of (xs @ ys) = ids_of xs \<union> ids_of ys"
  by (simp add: ids_of_def)

lemma all_ids_set:
  "set (all_ids x) =
     {el_id x} \<union> ids_of (case flowElements x of None \<Rightarrow> [] | Some fes \<Rightarrow> fes)
               \<union> ids_of (case artifacts x of None \<Rightarrow> [] | Some arts \<Rightarrow> arts)"
proof -
  have "all_ids x = el_id x
     # (case flowElements x of None \<Rightarrow> [] | Some fes \<Rightarrow> concat (map all_ids fes))
     @ (case artifacts x of None \<Rightarrow> [] | Some arts \<Rightarrow> concat (map all_ids arts))"
    by (rule all_ids.simps)
  then have "set (all_ids x) = set (el_id x
     # (case flowElements x of None \<Rightarrow> [] | Some fes \<Rightarrow> concat (map all_ids fes))
     @ (case artifacts x of None \<Rightarrow> [] | Some arts \<Rightarrow> concat (map all_ids arts)))"
    by simp
  also have "\<dots> = {el_id x} \<union> ids_of (case flowElements x of None \<Rightarrow> [] | Some fes \<Rightarrow> fes)
               \<union> ids_of (case artifacts x of None \<Rightarrow> [] | Some arts \<Rightarrow> arts)"
    by (cases "flowElements x"; cases "artifacts x") (simp_all add: ids_of_def Un_assoc)
  finally show ?thesis .
qed

lemma eff_create:
  assumes "createElement parent x m False old d = (Inr el, d1)"
  shows "eff {el_id x} m d (m(el_id x \<mapsto> el)) d1"
proof -
  from createElement_new [OF assms] obtain s where
    s: "el = fresh_id d" "d1 = d @ [s]" "sh_id s = el" by blast
  then show ?thesis
    using fresh_id_new [of d] by (auto simp: eff_def wiring_append ids_def)
qed

lemma eff_configure:
  assumes "configureElement el x m0 d = (r, d1)"
  shows "eff {} m d m d1"
  using configureElement_wiring [OF assms] by (simp add: eff_def)

lemma insert_eff:
  shows "insertShape parent x m rep old d = (Inr res, d') \<Longrightarrow> \<not> rep \<Longrightarrow>
           eff (set (all_ids x)) m d (r_idMap res) d' \<and> r_success res"
    and "insertChildElements par x m d = (Inr res, d') \<Longrightarrow>
           eff (ids_of (case flowElements x of None \<Rightarrow> [] | Some fes \<Rightarrow> fes)) m d (r_idMap res) d'
           \<and> r_success res"
    and "insertFlowElements par fes bs ss s m d = (Inr (s', m'), d') \<Longrightarrow>
           eff (ids_of fes \<union> ids_of bs \<union> ids_of ss) m d m' d' \<and> s' = s"
    and "insertElements par xs s m d = (Inr (s', m'), d') \<Longrightarrow>
           eff (ids_of xs) m d m' d' \<and> s' = s"
proof (induction parent x m rep old d and par x m d and par fes bs ss s m d and par xs s m d
       arbitrary: res d' and res d' and s' m' d' and s' m' d'
       rule: insertShape_insertChildElements_insertFlowElements_insertElements.induct)
  case (1 parent newElement idMap replace oldElement d)
  from "1.prems"(2) have nr: "replace = False" by simp
  from "1.prems"(1) obtain el d1 where ce: "createElement parent newElement idMap replace oldElement d = (Inr el, d1)"
    by (subst (asm) insertShape.simps) (auto split: prod.splits sum.splits)
  let ?m1 = "idMap(el_id newElement \<mapsto> el)"
  from "1.prems"(1) ce obtain u d2 where cf: "configureElement el newElement ?m1 d1 = (Inr u, d2)"
    by (subst (asm) insertShape.simps) (auto split: prod.splits sum.splits)
  from "1.prems"(1) ce cf obtain rc d3 where ic: "insertChildElements el newElement ?m1 d2 = (Inr rc, d3)"
    by (subst (asm) insertShape.simps) (auto split: prod.splits sum.splits)
  have e1: "eff {el_id newElement} idMap d ?m1 d1" using ce nr eff_create by simp
  have e2: "eff {} ?m1 d1 ?m1 d2" using cf by (rule eff_configure)
  have e3: "eff (ids_of (case flowElements newElement of None \<Rightarrow> [] | Some fes \<Rightarrow> fes)) ?m1 d2 (r_idMap rc) d3
            \<and> r_success rc"
    using "1.IH"(1) [OF ce [symmetric] refl cf [symmetric] refl ic] .
  have e123: "eff ({el_id newElement} \<union> ids_of (case flowElements newElement of None \<Rightarrow> [] | Some fes \<Rightarrow> fes))
               idMap d (r_idMap rc) d3"
    using eff_trans [OF eff_trans [OF e1 e2]] e3 by simp
  show ?case
  proof (cases "artifacts newElement")
    case None
    with "1.prems"(1) ce cf ic have "res = \<lparr>r_success = r_success rc, r_idMap = r_idMap rc, r_element = el\<rparr>" "d' = d3"
      by (subst (asm) insertShape.simps, simp)+
    with e123 e3 None show ?thesis by (simp add: all_ids_set)
  next
    case (Some arts)
    with "1.prems"(1) ce cf ic obtain s4 m4 where
      ia: "insertElements el arts (r_success rc) (r_idMap rc) d3 = (Inr (s4, m4), d')"
      and res: "res = \<lparr>r_success = s4, r_idMap = m4, r_element = el\<rparr>"
      by (subst (asm) insertShape.simps) (auto split: prod.splits sum.splits)
    have e4: "eff (ids_of arts) (r_idMap rc) d3 m4 d' \<and> s4 = r_success rc"
      using "1.IH"(2) [OF ce [symmetric] refl cf [symmetric] refl ic [symmetric] refl Some ia] .
    with eff_trans [OF e123] have "eff (set (all_ids newElement)) idMap d m4 d'"
      using Some by (simp add: all_ids_set)
    with e4 e3 res show ?thesis by simp
  qed
next
  case (2 parent newElement idMap d)
  show ?case
  proof (cases "flowElements newElement")
    case None
    with "2.prems" show ?thesis by (auto simp: eff_refl insertChildElements.simps)
  next
    case (Some fes)
    with "2.prems" obtain s1 m1 where
      r: "insertFlowElements parent fes [] [] True idMap d = (Inr (s1, m1), d')"
      and res: "res = \<lparr>r_success = s1, r_idMap = m1, r_element = parent\<rparr>"
      by (auto simp: insertChildElements.simps split: prod.splits sum.splits)
    from "2.IH" [OF Some r] res Some show ?thesis by simp
  qed
next
  case (3 parent boundaryEvents sequenceflows success idMap d)
  from "3.prems" obtain s1 m1 d1 where
    b: "insertElements parent boundaryEvents success idMap d = (Inr (s1, m1), d1)"
    and q: "insertElements parent sequenceflows s1 m1 d1 = (Inr (s', m'), d')"
    by (auto split: prod.splits sum.splits)
  have e1: "eff (ids_of boundaryEvents) idMap d m1 d1 \<and> s1 = success"
    using "3.IH"(1) [OF b] .
  have e2: "eff (ids_of sequenceflows) m1 d1 m' d' \<and> s' = s1"
    using "3.IH"(2) [OF b [symmetric] refl refl q] .
  from e1 e2 eff_trans show ?case by auto
next
  case (4 parent fe fes boundaryEvents sequenceflows success idMap d)
  show ?case
  proof (cases "el_type fe = ''bpmn:SequenceFlow''")
    case True
    with "4.prems" have
      "insertFlowElements parent fes boundaryEvents (sequenceflows @ [fe]) success idMap d = (Inr (s', m'), d')"
      by simp
    from "4.IH"(1) [OF True this] show ?thesis by (simp add: Un_ac)
  next
    case nseq: False
    show ?thesis
    proof (cases "el_type fe = ''bpmn:BoundaryEvent''")
      case True
      with nseq "4.prems" have
        "insertFlowElements parent fes (boundaryEvents @ [fe]) sequenceflows success idMap d = (Inr (s', m'), d')"
        by simp
      from "4.IH"(2) [OF nseq True this] show ?thesis by (simp add: Un_ac)
    next
      case False
      with nseq "4.prems" obtain r1 d1 where
        i: "insertShape (Some parent) fe idMap False None d = (Inr r1, d1)"
        and rest: "insertFlowElements parent fes boundaryEvents sequenceflows
                     (success \<and> r_success r1) (r_idMap r1) d1 = (Inr (s', m'), d')"
        by (auto split: prod.splits sum.splits)
      have e1: "eff (set (all_ids fe)) idMap d (r_idMap r1) d1 \<and> r_success r1"
        using "4.IH"(3) [OF nseq False i] by simp
      have e2: "eff (ids_of fes \<union> ids_of boundaryEvents \<union> ids_of sequenceflows) (r_idMap r1) d1 m' d'
                \<and> s' = (success \<and> r_success r1)"
        using "4.IH"(4) [OF nseq False i [symmetric] refl rest] .
      from e1 e2 eff_trans [of "set (all_ids fe)" idMap d "r_idMap r1" d1] show ?thesis
        by (auto simp: Un_assoc)
    qed
  qed
next
  case (5 parent success idMap d)
  then show ?case by (simp add: eff_refl)
next
  case (6 parent x xs success idMap d)
  from "6.prems" obtain r1 d1 where
    i: "insertShape (Some parent) x idMap False None d = (Inr r1, d1)"
    and rest: "insertElements parent xs (success \<and> r_success r1) (r_idMap r1) d1 = (Inr (s', m'), d')"
    by (auto split: prod.splits sum.splits)
  have e1: "eff (set (all_ids x)) idMap d (r_idMap r1) d1 \<and> r_success r1"
    using "6.IH"(1) [OF i] by simp
  have e2: "eff (ids_of xs) (r_idMap r1) d1 m' d' \<and> s' = (success \<and> r_success r1)"
    using "6.IH"(2) [OF i [symmetric] refl rest] .
  from e1 e2 eff_trans [of "set (all_ids x)" idMap d "r_idMap r1" d1] show ?case
    by auto
qed

lemma insertElements_append:
  "insertElements par (xs @ ys) s m d =
     (case insertElements par xs s m d of
        (Inl e, d1) \<Rightarrow> (Inl e, d1)
      | (Inr (s1, m1), d1) \<Rightarrow> insertElements par ys s1 m1 d1)"
  by (induction xs arbitrary: s m d) (auto split: prod.splits sum.splits)

lemma insertFlowElements_order:
  "insertFlowElements par fes bs ss s m d =
     insertElements par (plainOf fes @ (bs @ boundaryOf fes) @ (ss @ edgesOf fes)) s m d"
proof (induction fes arbitrary: bs ss s m d)
  case Nil
  show ?case
    by (simp add: plainOf_def boundaryOf_def edgesOf_def insertElements_append)
next
  case (Cons fe fes)
  show ?case
  proof (cases "el_type fe = ''bpmn:SequenceFlow''")
    case True
    then show ?thesis
      using Cons [of bs "ss @ [fe]" s m d]
      by (simp add: plainOf_def boundaryOf_def edgesOf_def)
  next
    case nseq: False
    show ?thesis
    proof (cases "el_type fe = ''bpmn:BoundaryEvent''")
      case True
      then show ?thesis
        using Cons [of "bs @ [fe]" ss s m d] nseq
        by (simp add: plainOf_def boundaryOf_def edgesOf_def)
    next
      case False
      have "plainOf (fe # fes) = fe # plainOf fes" "boundaryOf (fe # fes) = boundaryOf fes"
        "edgesOf (fe # fes) = edgesOf fes"
        using nseq False by (simp_all add: plainOf_def boundaryOf_def edgesOf_def)
      then show ?thesis
        using nseq False Cons by (simp split: prod.splits sum.splits)
    qed
  qed
qed

lemma insertChildElements_order:
  "flowElements el = Some fes \<Longrightarrow>
   insertChildElements par el m d =
     (case insertElements par (insertionOrder fes) True m d of
        (Inl e, d1) \<Rightarrow> (Inl e, d1)
      | (Inr (s, m'), d1) \<Rightarrow> (Inr \<lparr>r_success = s, r_idMap = m', r_element = par\<rparr>, d1))"
  by (simp add: insertChildElements.simps insertFlowElements_order insertionOrder_def)

lemma mset_insertionOrder: "mset (insertionOrder fes) = mset fes"
  by (induction fes) (auto simp: insertionOrder_def plainOf_def boundaryOf_def edgesOf_def)

lemma distinct_concat_perm:
  assumes "mset xs = mset ys"
  shows "distinct (concat (map f xs)) = distinct (concat (map f ys))"
proof -
  have "mset (concat (map f xs)) = sum_mset (image_mset (\<lambda>x. mset (f x)) (mset xs))"
    by (simp add: mset_concat comp_def flip: sum_mset_sum_list)
  also have "\<dots> = sum_mset (image_mset (\<lambda>x. mset (f x)) (mset ys))"
    using assms by simp
  also have "\<dots> = mset (concat (map f ys))"
    by (simp add: mset_concat comp_def flip: sum_mset_sum_list)
  finally show ?thesis by (rule mset_eq_imp_distinct_iff)
qed

lemma insertShape_returns:
  assumes "insertShape parent x m rep old d = (Inr res, d')"
  shows "\<exists>d1 u d2 rc d3.
     createElement parent x m rep old d = (Inr (r_element res), d1)
     \<and> configureElement (r_element res) x (m(el_id x \<mapsto> r_element res)) d1 = (Inr u, d2)
     \<and> insertChildElements (r_element res) x (m(el_id x \<mapsto> r_element res)) d2 = (Inr rc, d3)
     \<and> insertElements (r_element res) (case artifacts x of None \<Rightarrow> [] | Some arts \<Rightarrow> arts)
          (r_success rc) (r_idMap rc) d3 = (Inr (r_success res, r_idMap res), d')"
proof -
  from assms obtain el d1 where ce: "createElement parent x m rep old d = (Inr el, d1)"
    by (subst (asm) insertShape.simps) (auto split: prod.splits sum.splits)
  let ?m1 = "m(el_id x \<mapsto> el)"
  from assms ce obtain u d2 where cf: "configureElement el x ?m1 d1 = (Inr u, d2)"
    by (subst (asm) insertShape.simps) (auto split: prod.splits sum.splits)
  from assms ce cf obtain rc d3 where ic: "insertChildElements el x ?m1 d2 = (Inr rc, d3)"
    by (subst (asm) insertShape.simps) (auto split: prod.splits sum.splits)
  have "r_element res = el
     \<and> insertElements el (case artifacts x of None \<Rightarrow> [] | Some arts \<Rightarrow> arts)
          (r_success rc) (r_idMap rc) d3 = (Inr (r_success res, r_idMap res), d')"
  proof (cases "artifacts x")
    case None
    with assms ce cf ic have "res = \<lparr>r_success = r_success rc, r_idMap = r_idMap rc, r_element = el\<rparr>" "d' = d3"
      by (subst (asm) insertShape.simps, simp)+
    with None show ?thesis by simp
  next
    case (Some arts)
    with assms ce cf ic obtain s4 m4 where
      "insertElements el arts (r_success rc) (r_idMap rc) d3 = (Inr (s4, m4), d')"
      "res = \<lparr>r_success = s4, r_idMap = m4, r_element = el\<rparr>"
      by (subst (asm) insertShape.simps) (auto split: prod.splits sum.splits)
    with Some show ?thesis by simp
  qed
  with ce cf ic show ?thesis by blast
qed

text \<open>
  No statement of the program sets the success flag to false: whenever
  \<^verbatim>\<open>insertShape\<close> returns, the flag is true.
\<close>

lemma insertShape_success:
  assumes "insertShape parent x m rep old d = (Inr res, d')"
  shows "r_success res"
proof -
  from insertShape_returns [OF assms] obtain d1 u d2 rc d3 where
    ic: "insertChildElements (r_element res) x (m(el_id x \<mapsto> r_element res)) d2 = (Inr rc, d3)"
    and ia: "insertElements (r_element res) (case artifacts x of None \<Rightarrow> [] | Some arts \<Rightarrow> arts)
          (r_success rc) (r_idMap rc) d3 = (Inr (r_success res, r_idMap res), d')"
    by blast
  from insert_eff(2) [OF ic] insert_eff(4) [OF ia] show ?thesis by simp
qed

text \<open>The element that insertShape creates for a new element, and where the id map sends its id.\<close>

lemma insertShape_element:
  assumes r: "insertShape parent x m False old d = (Inr res, d')"
    and own: "el_id x \<notin> ids_of (case flowElements x of None \<Rightarrow> [] | Some fes \<Rightarrow> fes)
                        \<union> ids_of (case artifacts x of None \<Rightarrow> [] | Some arts \<Rightarrow> arts)"
  shows "r_idMap res (el_id x) = Some (r_element res)
     \<and> r_element res = fresh_id d
     \<and> (\<exists>s. createElement parent x m False old d = (Inr (r_element res), d @ [s])
            \<and> sh_id s = r_element res
            \<and> (sh_id s, sh_type s, sh_source s, sh_target s) \<in> wiring d')"
proof -
  let ?el = "r_element res"
  let ?m1 = "m(el_id x \<mapsto> ?el)"
  from insertShape_returns [OF r] obtain d1 u d2 rc d3 where
    ce: "createElement parent x m False old d = (Inr ?el, d1)"
    and cf: "configureElement ?el x ?m1 d1 = (Inr u, d2)"
    and ic: "insertChildElements ?el x ?m1 d2 = (Inr rc, d3)"
    and ia: "insertElements ?el (case artifacts x of None \<Rightarrow> [] | Some arts \<Rightarrow> arts)
          (r_success rc) (r_idMap rc) d3 = (Inr (r_success res, r_idMap res), d')"
    by blast
  from createElement_new [OF ce] obtain s where
    s: "?el = fresh_id d" "d1 = d @ [s]" "sh_id s = ?el" by blast
  have e2: "wiring d2 = wiring d1" using configureElement_wiring [OF cf] by simp
  have e3: "eff (ids_of (case flowElements x of None \<Rightarrow> [] | Some fes \<Rightarrow> fes)) ?m1 d2 (r_idMap rc) d3"
    using insert_eff(2) [OF ic] by simp
  have e4: "eff (ids_of (case artifacts x of None \<Rightarrow> [] | Some arts \<Rightarrow> arts)) (r_idMap rc) d3 (r_idMap res) d'"
    using insert_eff(4) [OF ia] by simp
  have "r_idMap res (el_id x) = ?m1 (el_id x)"
    using e3 e4 own by (simp add: eff_def)
  moreover have "(sh_id s, sh_type s, sh_source s, sh_target s) \<in> wiring d'"
    using e2 e3 e4 s(2) by (auto simp: eff_def wiring_append)
  ultimately show ?thesis using s ce by auto
qed

lemma all_ids_head: "el_id x \<in> set (all_ids x)"
  by (simp add: all_ids_set)

lemma ids_of_member: "x \<in> set xs \<Longrightarrow> el_id x \<in> ids_of xs"
  using all_ids_head by (auto simp: ids_of_def)

lemma wiring_member:
  "(i, ty, a, b) \<in> wiring d \<Longrightarrow> \<exists>c\<in>set d. sh_id c = i \<and> sh_type c = ty \<and> sh_source c = a \<and> sh_target c = b"
  by (auto simp: wiring_def)

lemma registry_get_registered: "i \<in> set (ids d) \<Longrightarrow> registry_get d (Some i) = Some i"
  by (simp add: registry_get_def)

lemma eff_mapped:
  "eff X m d m' d' \<Longrightarrow> k \<in> X \<Longrightarrow> \<exists>i. m' k = Some i \<and> i \<in> set (ids d') \<and> i \<notin> set (ids d)"
  by (simp add: eff_def)

lemma eff_frame: "eff X m d m' d' \<Longrightarrow> k \<notin> X \<Longrightarrow> m' k = m k"
  by (simp add: eff_def)

lemma eff_wiring: "eff X m d m' d' \<Longrightarrow> wiring d \<subseteq> wiring d'"
  by (simp add: eff_def)

lemma eff_ids: "eff X m d m' d' \<Longrightarrow> set (ids d) \<subseteq> set (ids d')"
  by (simp add: eff_def wiring_ids_mono)

lemma insertChildElements_edge_ends:
  assumes ret: "insertChildElements par el m d = (Inr res, d')"
    and fes: "flowElements el = Some fes"
    and e: "e \<in> set fes" "el_type e = ''bpmn:SequenceFlow''"
    and src: "map_of (el_props e) ''sourceRef'' = Some (Ref (el_id p))"
    and tgt: "map_of (el_props e) ''targetRef'' = Some (Ref (el_id q))"
    and p: "p \<in> set (plainOf fes)" and q: "q \<in> set (plainOf fes)"
    and dist: "distinct (concat (map all_ids fes))"
  shows "insertElements par (plainOf fes @ boundaryOf fes @ edgesOf fes) True m d
           = (Inr (r_success res, r_idMap res), d')
     \<and> (\<exists>es1 es2 s1 m1 d1 ip iq ie.
          edgesOf fes = es1 @ e # es2
          \<and> insertElements par (plainOf fes @ boundaryOf fes @ es1) True m d = (Inr (s1, m1), d1)
          \<and> m1 (el_id p) = Some ip \<and> m1 (el_id q) = Some iq
          \<and> r_idMap res (el_id p) = Some ip \<and> r_idMap res (el_id q) = Some iq
          \<and> r_idMap res (el_id e) = Some ie
          \<and> ip \<in> set (ids d') \<and> ip \<notin> set (ids d) \<and> iq \<in> set (ids d') \<and> iq \<notin> set (ids d)
          \<and> (\<exists>c\<in>set d'. sh_id c = ie \<and> sh_type c = ''bpmn:SequenceFlow''
                \<and> sh_source c = Some ip \<and> sh_target c = Some iq))"
proof -
  let ?pre0 = "plainOf fes @ boundaryOf fes"
  have whole: "insertElements par (insertionOrder fes) True m d = (Inr (r_success res, r_idMap res), d')"
    using ret insertChildElements_order [OF fes, of par m d]
    by (auto split: prod.splits sum.splits)
  from e have "e \<in> set (edgesOf fes)" by (simp add: edgesOf_def)
  then obtain es1 es2 where es: "edgesOf fes = es1 @ e # es2"
    by (auto dest: split_list)
  let ?pre = "?pre0 @ es1"
  have order: "insertionOrder fes = ?pre @ e # es2"
    using es by (simp add: insertionOrder_def)
  from whole obtain s1 m1 d1 where
    pre: "insertElements par ?pre True m d = (Inr (s1, m1), d1)"
    and rest: "insertElements par (e # es2) s1 m1 d1 = (Inr (r_success res, r_idMap res), d')"
    unfolding order by (subst (asm) insertElements_append) (auto split: prod.splits sum.splits)
  from rest obtain re d2 where
    ie: "insertShape (Some par) e m1 False None d1 = (Inr re, d2)"
    and post: "insertElements par es2 (s1 \<and> r_success re) (r_idMap re) d2
                 = (Inr (r_success res, r_idMap res), d')"
    by (auto split: prod.splits sum.splits)
  have "distinct (concat (map all_ids (insertionOrder fes)))"
    using dist distinct_concat_perm [OF mset_insertionOrder, of all_ids fes] by simp
  then have dis: "distinct (all_ids e)" "ids_of ?pre \<inter> set (all_ids e) = {}"
    "ids_of ?pre \<inter> ids_of es2 = {}" "set (all_ids e) \<inter> ids_of es2 = {}"
    unfolding order by (auto simp: ids_of_def)
  have epre: "eff (ids_of ?pre) m d m1 d1" using insert_eff(4) [OF pre] by simp
  have ee: "eff (set (all_ids e)) m1 d1 (r_idMap re) d2" using insert_eff(1) [OF ie] by simp
  have epost: "eff (ids_of es2) (r_idMap re) d2 (r_idMap res) d'" using insert_eff(4) [OF post] by simp
  have pin: "el_id p \<in> ids_of ?pre" and qin: "el_id q \<in> ids_of ?pre"
    using p q by (auto dest: ids_of_member)
  from eff_mapped [OF epre pin]
  obtain ip where ip: "m1 (el_id p) = Some ip" "ip \<in> set (ids d1)" "ip \<notin> set (ids d)"
    by blast
  from eff_mapped [OF epre qin]
  obtain iq where iq: "m1 (el_id q) = Some iq" "iq \<in> set (ids d1)" "iq \<notin> set (ids d)"
    by blast
  have sub: "set (ids d1) \<subseteq> set (ids d')"
    using eff_ids [OF ee] eff_ids [OF epost] by blast
  have keep: "\<And>k. k \<in> ids_of ?pre \<Longrightarrow> r_idMap res k = m1 k"
  proof -
    fix k assume "k \<in> ids_of ?pre"
    with dis have "k \<notin> set (all_ids e)" "k \<notin> ids_of es2" by auto
    then show "r_idMap res k = m1 k"
      using eff_frame [OF ee, of k] eff_frame [OF epost, of k] by simp
  qed
  have own: "el_id e \<notin> ids_of (case flowElements e of None \<Rightarrow> [] | Some fes \<Rightarrow> fes)
                        \<union> ids_of (case artifacts e of None \<Rightarrow> [] | Some arts \<Rightarrow> arts)"
  proof -
    have "all_ids e = el_id e
       # (case flowElements e of None \<Rightarrow> [] | Some fes \<Rightarrow> concat (map all_ids fes))
       @ (case artifacts e of None \<Rightarrow> [] | Some arts \<Rightarrow> concat (map all_ids arts))"
      by (rule all_ids.simps)
    with dis(1) show ?thesis
      by (cases "flowElements e"; cases "artifacts e") (auto simp: ids_of_def)
  qed
  from insertShape_element [OF ie own] obtain s where
    s: "r_idMap re (el_id e) = Some (r_element re)"
       "createElement (Some par) e m1 False None d1 = (Inr (r_element re), d1 @ [s])"
       "sh_id s = r_element re"
       "(sh_id s, sh_type s, sh_source s, sh_target s) \<in> wiring d2"
    by blast
  have fl: "isFlowLikeElement (el_type e)" using e(2) by (simp add: isFlowLikeElement_def)
  have rs: "refId e ''sourceRef'' = Inr (Some (el_id p))" "refId e ''targetRef'' = Inr (Some (el_id q))"
    using src tgt by (simp_all add: refId_def)
  from createElement_new [OF s(2)] fl rs ip iq
  have ends: "sh_type s = ''bpmn:SequenceFlow''" "sh_source s = Some ip" "sh_target s = Some iq"
    using e(2) by (auto simp: idMapAt_def registry_get_registered)
  have "(r_element re, ''bpmn:SequenceFlow'', Some ip, Some iq) \<in> wiring d'"
    using s(3,4) ends eff_wiring [OF epost] by auto
  then have conn: "\<exists>c\<in>set d'. sh_id c = r_element re \<and> sh_type c = ''bpmn:SequenceFlow''
                \<and> sh_source c = Some ip \<and> sh_target c = Some iq"
    by (rule wiring_member)
  have efin: "r_idMap res (el_id e) = Some (r_element re)"
    using s(1) eff_frame [OF epost, of "el_id e"] dis(4) all_ids_head [of e] by auto
  have "whole": "insertElements par (plainOf fes @ boundaryOf fes @ edgesOf fes) True m d
           = (Inr (r_success res, r_idMap res), d')"
    using whole by (simp add: insertionOrder_def)
  moreover have "edgesOf fes = es1 @ e # es2
          \<and> insertElements par (plainOf fes @ boundaryOf fes @ es1) True m d = (Inr (s1, m1), d1)
          \<and> m1 (el_id p) = Some ip \<and> m1 (el_id q) = Some iq
          \<and> r_idMap res (el_id p) = Some ip \<and> r_idMap res (el_id q) = Some iq
          \<and> r_idMap res (el_id e) = Some (r_element re)
          \<and> ip \<in> set (ids d') \<and> ip \<notin> set (ids d) \<and> iq \<in> set (ids d') \<and> iq \<notin> set (ids d)
          \<and> (\<exists>c\<in>set d'. sh_id c = r_element re \<and> sh_type c = ''bpmn:SequenceFlow''
                \<and> sh_source c = Some ip \<and> sh_target c = Some iq)"
    using es pre ip iq keep [OF pin] keep [OF qin] efin sub conn by auto
  ultimately show ?thesis by blast
qed

lemma insertShape_leaf_returns:
  assumes "\<not> isFlowLikeElement (el_type x)" "el_type x \<noteq> ''bpmn:BoundaryEvent''"
    "flowElements x = None" "artifacts x = None"
  shows "\<exists>res d'. insertShape (Some par) x m False old d = (Inr res, d')"
  using assms
  by (simp add: insertShape.simps insertChildElements.simps createElement_def createShape_def
      configureElement_def Let_def)

lemma insertShape_edge_returns:
  assumes "el_type e = ''bpmn:SequenceFlow''" "flowElements e = None" "artifacts e = None"
    and "map_of (el_props e) ''sourceRef'' = Some (Ref a)"
    and "map_of (el_props e) ''targetRef'' = Some (Ref b)"
    and "m a = Some ia" "ia \<in> set (ids d)" "m b = Some ib" "ib \<in> set (ids d)"
  shows "\<exists>res d'. insertShape (Some par) e m False old d = (Inr res, d')"
  using assms
  by (simp add: insertShape.simps insertChildElements.simps createElement_def connect_def
      isFlowLikeElement_def refId_def idMapAt_def registry_get_def configureElement_def Let_def)

lemma insertElements_plain_returns:
  "\<forall>x\<in>set xs. \<not> isFlowLikeElement (el_type x) \<and> el_type x \<noteq> ''bpmn:BoundaryEvent''
       \<and> flowElements x = None \<and> artifacts x = None \<Longrightarrow>
   \<exists>s' m' d'. insertElements par xs s m d = (Inr (s', m'), d')"
proof (induction xs arbitrary: s m d)
  case Nil
  show ?case by simp
next
  case (Cons x xs)
  then obtain res d1 where "insertShape (Some par) x m False None d = (Inr res, d1)"
    using insertShape_leaf_returns [of x par m None d] by auto
  with Cons show ?case by simp
qed

lemma insertElements_edges_return:
  assumes "\<forall>e\<in>set es. el_type e = ''bpmn:SequenceFlow'' \<and> flowElements e = None \<and> artifacts e = None
             \<and> (\<exists>a\<in>K. map_of (el_props e) ''sourceRef'' = Some (Ref a))
             \<and> (\<exists>b\<in>K. map_of (el_props e) ''targetRef'' = Some (Ref b))"
    and "\<forall>k\<in>K. \<exists>i. m k = Some i \<and> i \<in> set (ids d)"
  shows "\<exists>s' m' d'. insertElements par es s m d = (Inr (s', m'), d')"
  using assms
proof (induction es arbitrary: s m d)
  case Nil
  show ?case by simp
next
  case (Cons e es)
  from Cons.prems obtain a b ia ib where
    "map_of (el_props e) ''sourceRef'' = Some (Ref a)" "map_of (el_props e) ''targetRef'' = Some (Ref b)"
    "m a = Some ia" "ia \<in> set (ids d)" "m b = Some ib" "ib \<in> set (ids d)"
    by (metis list.set_intros(1))
  moreover from Cons.prems have "el_type e = ''bpmn:SequenceFlow''" "flowElements e = None" "artifacts e = None"
    by simp_all
  ultimately obtain res d1 where r: "insertShape (Some par) e m False None d = (Inr res, d1)"
    using insertShape_edge_returns [of e a b m ia d ib par None] by blast
  have e1: "eff (set (all_ids e)) m d (r_idMap res) d1" using insert_eff(1) [OF r] by simp
  have inv: "\<forall>k\<in>K. \<exists>i. r_idMap res k = Some i \<and> i \<in> set (ids d1)"
  proof
    fix k assume k: "k \<in> K"
    show "\<exists>i. r_idMap res k = Some i \<and> i \<in> set (ids d1)"
    proof (cases "k \<in> set (all_ids e)")
      case True
      from eff_mapped [OF e1 True] show ?thesis by blast
    next
      case False
      from eff_frame [OF e1 False] Cons.prems(2) k eff_ids [OF e1] show ?thesis by auto
    qed
  qed
  from Cons.IH [OF _ inv, of "s \<and> r_success res"] Cons.prems(1) r show ?case by simp
qed

lemma plainOf_member:
  "x \<in> set (plainOf fes) \<longleftrightarrow> x \<in> set fes \<and> el_type x \<noteq> ''bpmn:SequenceFlow'' \<and> el_type x \<noteq> ''bpmn:BoundaryEvent''"
  by (auto simp: plainOf_def)

lemma insertChildElements_returns:
  assumes fes: "flowElements el = Some fes" and leaf: "leafChildren fes"
  shows "\<exists>res d'. insertChildElements par el m d = (Inr res, d')"
proof -
  have plain: "\<forall>x\<in>set (plainOf fes). \<not> isFlowLikeElement (el_type x) \<and> el_type x \<noteq> ''bpmn:BoundaryEvent''
       \<and> flowElements x = None \<and> artifacts x = None"
    using leaf by (auto simp: leafChildren_def plainOf_member isFlowLikeElement_def)
  from insertElements_plain_returns [OF plain, of par True m d]
  obtain s1 m1 d1 where p: "insertElements par (plainOf fes) True m d = (Inr (s1, m1), d1)"
    by blast
  have nob: "boundaryOf fes = []"
    using leaf by (auto simp: leafChildren_def boundaryOf_def filter_empty_conv)
  let ?K = "el_id ` set (plainOf fes)"
  have inv: "\<forall>k\<in>?K. \<exists>i. m1 k = Some i \<and> i \<in> set (ids d1)"
  proof
    fix k assume "k \<in> ?K"
    then have "k \<in> ids_of (plainOf fes)" by (auto dest: ids_of_member)
    from eff_mapped [OF _ this] insert_eff(4) [OF p] show "\<exists>i. m1 k = Some i \<and> i \<in> set (ids d1)"
      by blast
  qed
  have edges: "\<forall>e\<in>set (edgesOf fes). el_type e = ''bpmn:SequenceFlow'' \<and> flowElements e = None \<and> artifacts e = None
             \<and> (\<exists>a\<in>?K. map_of (el_props e) ''sourceRef'' = Some (Ref a))
             \<and> (\<exists>b\<in>?K. map_of (el_props e) ''targetRef'' = Some (Ref b))"
    using leaf by (fastforce simp: leafChildren_def edgesOf_def)
  from insertElements_edges_return [OF edges inv, of par s1]
  obtain s2 m2 d2 where "insertElements par (edgesOf fes) s1 m1 d1 = (Inr (s2, m2), d2)"
    by blast
  with p nob have "insertElements par (insertionOrder fes) True m d = (Inr (s2, m2), d2)"
    by (simp add: insertionOrder_def insertElements_append)
  then show ?thesis
    using insertChildElements_order [OF fes, of par m d] by simp
qed

text \<open>
  Claim C1. \<^verbatim>\<open>insertChildElements\<close> inserts the plain flow elements first, then the
  boundary events, then the sequence flows. For flow elements with distinct ids it
  returns when they are leaves, and whenever it returns, a sequence flow among them whose
  \<^verbatim>\<open>sourceRef\<close> and \<^verbatim>\<open>targetRef\<close> refer to plain flow elements of the same container
  is registered as a connection between the ids that the id map records for these two
  elements: both ids are in the id map when the connection is created, and both belong
  to elements that the insertion registered.
\<close>

theorem insertChildElements_connects_new_ids:
  assumes fes: "flowElements el = Some fes"
    and e: "e \<in> set fes" "el_type e = ''bpmn:SequenceFlow''"
    and src: "map_of (el_props e) ''sourceRef'' = Some (Ref (el_id p))"
    and tgt: "map_of (el_props e) ''targetRef'' = Some (Ref (el_id q))"
    and p: "p \<in> set (plainOf fes)" and q: "q \<in> set (plainOf fes)"
    and dist: "distinct (concat (map all_ids fes))"
  shows "insertChildElements par el m d =
           (case insertElements par (plainOf fes @ boundaryOf fes @ edgesOf fes) True m d of
              (Inl err, d1) \<Rightarrow> (Inl err, d1)
            | (Inr (s, m'), d1) \<Rightarrow> (Inr \<lparr>r_success = s, r_idMap = m', r_element = par\<rparr>, d1))
     \<and> (leafChildren fes \<longrightarrow> (\<exists>res d'. insertChildElements par el m d = (Inr res, d')))
     \<and> (\<forall>res d'. insertChildElements par el m d = (Inr res, d') \<longrightarrow>
          (\<exists>es1 es2 s1 m1 d1 ip iq ie.
             edgesOf fes = es1 @ e # es2
             \<and> insertElements par (plainOf fes @ boundaryOf fes @ es1) True m d = (Inr (s1, m1), d1)
             \<and> m1 (el_id p) = Some ip \<and> m1 (el_id q) = Some iq
             \<and> r_idMap res (el_id p) = Some ip \<and> r_idMap res (el_id q) = Some iq
             \<and> r_idMap res (el_id e) = Some ie
             \<and> ip \<in> set (ids d') \<and> ip \<notin> set (ids d) \<and> iq \<in> set (ids d') \<and> iq \<notin> set (ids d)
             \<and> (\<exists>c\<in>set d'. sh_id c = ie \<and> sh_type c = ''bpmn:SequenceFlow''
                   \<and> sh_source c = Some ip \<and> sh_target c = Some iq)))"
proof (intro conjI impI allI)
  show "insertChildElements par el m d =
           (case insertElements par (plainOf fes @ boundaryOf fes @ edgesOf fes) True m d of
              (Inl err, d1) \<Rightarrow> (Inl err, d1)
            | (Inr (s, m'), d1) \<Rightarrow> (Inr \<lparr>r_success = s, r_idMap = m', r_element = par\<rparr>, d1))"
    using insertChildElements_order [OF fes, of par m d] by (simp add: insertionOrder_def)
next
  assume "leafChildren fes"
  with fes show "\<exists>res d'. insertChildElements par el m d = (Inr res, d')"
    by (rule insertChildElements_returns)
next
  fix res d'
  assume ret: "insertChildElements par el m d = (Inr res, d')"
  from insertChildElements_edge_ends [OF ret fes e src tgt p q dist]
  show "\<exists>es1 es2 s1 m1 d1 ip iq ie.
             edgesOf fes = es1 @ e # es2
             \<and> insertElements par (plainOf fes @ boundaryOf fes @ es1) True m d = (Inr (s1, m1), d1)
             \<and> m1 (el_id p) = Some ip \<and> m1 (el_id q) = Some iq
             \<and> r_idMap res (el_id p) = Some ip \<and> r_idMap res (el_id q) = Some iq
             \<and> r_idMap res (el_id e) = Some ie
             \<and> ip \<in> set (ids d') \<and> ip \<notin> set (ids d) \<and> iq \<in> set (ids d') \<and> iq \<notin> set (ids d)
             \<and> (\<exists>c\<in>set d'. sh_id c = ie \<and> sh_type c = ''bpmn:SequenceFlow''
                   \<and> sh_source c = Some ip \<and> sh_target c = Some iq)"
    by blast
qed

lemma createElement_unresolved:
  assumes "isFlowLikeElement (el_type e)"
    and "refId e ''sourceRef'' = Inr a" and "refId e ''targetRef'' = Inr b"
    and "idMapAt m a = None \<or> idMapAt m b = None"
  shows "createElement parent e m rep old d = (Inl HostError, d)"
  using assms
  by (auto simp: createElement_def connect_def registry_get_def split: option.splits)

lemma insertShape_unresolved:
  assumes "isFlowLikeElement (el_type e)"
    and "refId e ''sourceRef'' = Inr a" and "refId e ''targetRef'' = Inr b"
    and "idMapAt m a = None \<or> idMapAt m b = None"
  shows "insertShape parent e m rep old d = (Inl HostError, d)"
  using createElement_unresolved [OF assms, of parent rep old d]
  by (simp add: insertShape.simps)

text \<open>
  A sequence flow with an end that the id map does not hold when the flow is reached: the
  editor raises, and the exception ends \<^verbatim>\<open>insertChildElements\<close> and the
  \<^verbatim>\<open>insertShape\<close> call of the container with the diagram as it was when the flow
  was reached. No result is returned, and the flow elements after it are not inserted.
\<close>

lemma insertShape_unresolved_child:
  assumes ce: "createElement parent el m0 rep old d0 = (Inr par, d01)"
    and cf: "configureElement par el (m0(el_id el \<mapsto> par)) d01 = (Inr u, d)"
    and fes: "flowElements el = Some fes"
    and es: "edgesOf fes = es1 @ e # es2"
    and src: "refId e ''sourceRef'' = Inr a" and tgt: "refId e ''targetRef'' = Inr b"
    and pre: "insertElements par (plainOf fes @ boundaryOf fes @ es1) True (m0(el_id el \<mapsto> par)) d
                = (Inr (s1, m1), d1)"
    and absent: "idMapAt m1 a = None \<or> idMapAt m1 b = None"
  shows "insertShape parent el m0 rep old d0 = (Inl HostError, d1)
     \<and> insertChildElements par el (m0(el_id el \<mapsto> par)) d = (Inl HostError, d1)"
proof -
  have "e \<in> set (edgesOf fes)" using es by simp
  then have fl: "isFlowLikeElement (el_type e)"
    by (simp add: edgesOf_def isFlowLikeElement_def)
  have thr: "insertShape (Some par) e m1 False None d1 = (Inl HostError, d1)"
    using insertShape_unresolved [OF fl src tgt absent] .
  have order: "insertionOrder fes = (plainOf fes @ boundaryOf fes @ es1) @ e # es2"
    using es by (simp add: insertionOrder_def)
  have "insertElements par (insertionOrder fes) True (m0(el_id el \<mapsto> par)) d = (Inl HostError, d1)"
    unfolding order by (subst insertElements_append) (simp add: pre thr)
  then have ic: "insertChildElements par el (m0(el_id el \<mapsto> par)) d = (Inl HostError, d1)"
    using insertChildElements_order [OF fes, of par "m0(el_id el \<mapsto> par)" d] by simp
  have "insertShape parent el m0 rep old d0 = (Inl HostError, d1)"
    by (subst insertShape.simps) (simp add: ce cf ic)
  with ic show ?thesis by blast
qed

section \<open>Properties of the aggregated result\<close>
















section \<open>The examples of insertion\<close>

lemmas ex_defs = exFlow_def exA_def exB_def exFragment_def exDangling_def exLoop_def exBroken_def
  exReplaced_def exSpliced_def exHalfSpliced_def exDiagram_def exTask_def

lemmas host_defs = createElement_def configureElement_def isFlowLikeElement_def
  replaceElement_def registry_get_def ids_def fresh_id_def new_shape_def
  createShape_def connect_def refId_def idMapAt_def updateProperties_def getPropertiesToCopy_def
  isExpanded_def parent_of_def setExpanded_def setHost_def startsWith_def


lemma exFragment_children_run:
  "case insertChildElements ''nn'' exFragment [''s'' \<mapsto> ''nn''] exReplaced of
     (Inl e, d') \<Rightarrow> False
   | (Inr res, d') \<Rightarrow>
       r_idMap res ''a'' = Some ''nnn'' \<and> r_idMap res ''b'' = Some ''nnnn''
       \<and> r_idMap res ''f'' = Some ''nnnnn''
       \<and> map (\<lambda>c. (sh_id c, sh_type c, sh_source c, sh_target c)) d'
           = [(''P'', ''bpmn:Process'', None, None),
              (''nn'', ''bpmn:SubProcess'', None, None),
              (''U'', ''quantme:QuantumComputationTask'', None, None),
              (''nnn'', ''bpmn:Task'', None, None),
              (''nnnn'', ''bpmn:Task'', None, None),
              (''nnnnn'', ''bpmn:SequenceFlow'', Some ''nnn'', Some ''nnnn'')]"
  by code_simp

theorem insertChildElements_connects_new_ids_witness:
  "\<exists>res d'. insertChildElements ''nn'' exFragment [''s'' \<mapsto> ''nn''] exReplaced = (Inr res, d')
     \<and> insertElements ''nn'' [exA, exB, exFlow] True [''s'' \<mapsto> ''nn''] exReplaced
          = (Inr (r_success res, r_idMap res), d')
     \<and> r_idMap res ''a'' = Some ''nnn'' \<and> r_idMap res ''b'' = Some ''nnnn''
     \<and> (\<exists>c\<in>set d'. sh_id c = ''nnnnn'' \<and> sh_type c = ''bpmn:SequenceFlow''
            \<and> sh_source c = Some ''nnn'' \<and> sh_target c = Some ''nnnn'')"
proof -
  have fes: "flowElements exFragment = Some [exFlow, exA, exB]" by (simp add: exFragment_def)
  have types: "el_type exFlow = ''bpmn:SequenceFlow''" "el_type exA = ''bpmn:Task''"
    "el_type exB = ''bpmn:Task''" "el_id exA = ''a''" "el_id exB = ''b''" "el_id exFlow = ''f''"
    by (simp_all add: exFlow_def exA_def exB_def)
  have src: "map_of (el_props exFlow) ''sourceRef'' = Some (Ref (el_id exA))"
    and tgt: "map_of (el_props exFlow) ''targetRef'' = Some (Ref (el_id exB))"
    by (simp_all add: exFlow_def exA_def exB_def)
  have buckets: "plainOf [exFlow, exA, exB] = [exA, exB]" "boundaryOf [exFlow, exA, exB] = []"
    "edgesOf [exFlow, exA, exB] = [exFlow]"
    by (simp_all add: plainOf_def boundaryOf_def edgesOf_def types)
  have dist: "distinct (concat (map all_ids [exFlow, exA, exB]))"
    by (simp add: all_ids.simps exFlow_def exA_def exB_def)
  have leaf: "leafChildren [exFlow, exA, exB]"
    by (simp add: leafChildren_def buckets) (simp add: exFlow_def exA_def exB_def)
  have mem: "exFlow \<in> set [exFlow, exA, exB]" "exA \<in> set (plainOf [exFlow, exA, exB])"
    "exB \<in> set (plainOf [exFlow, exA, exB])"
    by (simp_all add: buckets)
  note inst = insertChildElements_connects_new_ids
    [OF fes mem(1) types(1) src tgt mem(2) mem(3) dist, of "''nn''" "[''s'' \<mapsto> ''nn'']" exReplaced]
  from inst [THEN conjunct2, THEN conjunct1] leaf obtain res d' where
    run: "insertChildElements ''nn'' exFragment [''s'' \<mapsto> ''nn''] exReplaced = (Inr res, d')"
    by blast
  from exFragment_children_run run have
    vals: "r_idMap res ''a'' = Some ''nnn''" "r_idMap res ''b'' = Some ''nnnn''"
      "r_idMap res ''f'' = Some ''nnnnn''"
    by simp_all
  from inst [THEN conjunct1] run
  have order: "insertElements ''nn'' [exA, exB, exFlow] True [''s'' \<mapsto> ''nn''] exReplaced
          = (Inr (r_success res, r_idMap res), d')"
    by (auto simp: buckets split: prod.splits sum.splits)
  from inst [THEN conjunct2, THEN conjunct2] run obtain ip iq ie where
    "r_idMap res (el_id exA) = Some ip" "r_idMap res (el_id exB) = Some iq"
    "r_idMap res (el_id exFlow) = Some ie"
    "\<exists>c\<in>set d'. sh_id c = ie \<and> sh_type c = ''bpmn:SequenceFlow''
        \<and> sh_source c = Some ip \<and> sh_target c = Some iq"
    by blast
  with vals types have "\<exists>c\<in>set d'. sh_id c = ''nnnnn'' \<and> sh_type c = ''bpmn:SequenceFlow''
        \<and> sh_source c = Some ''nnn'' \<and> sh_target c = Some ''nnnn''"
    by simp
  with run order vals show ?thesis by blast
qed

text \<open>
  Claim C2. The claim asks that a sequence flow with an end absent from the id map makes
  the splice return \<open>success = false\<close> without an exception, the remaining flow
  elements of the container being processed. The program does otherwise. For the
  fragment \<open>exBroken\<close>, whose first sequence flow has the end \<open>zz\<close> outside the
  fragment, \<^verbatim>\<open>insertShape\<close> and \<^verbatim>\<open>replaceByFragment\<close> end with the
  exception that the editor raises for the undefined end, and return neither a result nor
  a flag. The diagram is left with the task \<open>T\<close> turned into a subprocess that holds the
  task \<open>a\<close> alone: the sequence flow \<open>g\<close> that follows in the container is not in it,
  although it can be inserted into that diagram, both its ends being in the id map.
\<close>

theorem unresolved_endpoint_throws:
  "insertShape (Some ''P'') exBroken Map.empty True (Some exTask) exDiagram
     = (Inl HostError, exHalfSpliced)
   \<and> replaceByFragment exTask (Some ''P'')
        (Some [Element ''bpmn:Process'' ''R'' [] (Some [exBroken]) None]) exDiagram
     = (Inl HostError, exHalfSpliced)
   \<and> \<not> isl (fst (insertShape (Some ''T'') exLoop [''s'' \<mapsto> ''T'', ''a'' \<mapsto> ''nn''] False None
                     exHalfSpliced))"
  by (simp add: replaceByFragment_def getSingleFlowElement_def insertShape.simps
      insertChildElements.simps ex_defs host_defs)



end
